theory Spec2Isabelle
  imports Complex_Main "HOL-Library.Sublist" "HOL-Library.Log_Nat"
begin

section \<open>JavaScript numbers\<close>

text \<open>
  A JavaScript number is an IEEE 754 double: a finite value, an infinity or NaN. The two
  zeros are one value here; the code only compares and multiplies, where they behave
  alike.
\<close>

datatype number = Finite rat | PosInfinity | NegInfinity | NaN

text \<open>\<open>ilog2 a\<close> is the integer \<open>e\<close> with \<open>2^e \<le> a < 2^(e+1)\<close>, for a positive \<open>a\<close>.\<close>

definition ilog2 :: "rat \<Rightarrow> int" where
  "ilog2 a =
     (let d = bitlen (fst (quotient_of a)) - bitlen (snd (quotient_of a))
      in if 2 powi d \<le> a then d else d - 1)"

text \<open>The nearest integer, a tie going to the even one.\<close>

definition round_even :: "rat \<Rightarrow> int" where
  "round_even x =
     (let n = \<lfloor>x\<rfloor>; d = x - of_int n
      in if d < 1 / 2 then n else if 1 / 2 < d then n + 1 else if even n then n else n + 1)"

text \<open>
  The spacing of the doubles around a positive \<open>a\<close>: 53 significant bits, and the
  spacing of the subnormal numbers below \<open>2^-1022\<close>.
\<close>

definition ulp :: "rat \<Rightarrow> rat" where
  "ulp a = 2 powi (max (ilog2 a) (- 1022) - 52)"

definition nearest :: "rat \<Rightarrow> rat" where
  "nearest a = of_int (round_even (a / ulp a)) * ulp a"

definition double_pos :: "rat \<Rightarrow> number" where
  "double_pos a = (if 2 powi 1024 \<le> nearest a then PosInfinity else Finite (nearest a))"

fun neg :: "number \<Rightarrow> number" where
  "neg (Finite x) = Finite (- x)"
| "neg PosInfinity = NegInfinity"
| "neg NegInfinity = PosInfinity"
| "neg NaN = NaN"

text \<open>
  The number value of a mathematical value: round to nearest, ties to even, overflow to
  an infinity. Every arithmetic result of the code is rounded so.
\<close>

definition double :: "rat \<Rightarrow> number" where
  "double q =
     (if q = 0 then Finite 0 else if 0 < q then double_pos q else neg (double_pos (- q)))"

text \<open>The operator \<open><\<close> on numbers: false when an operand is NaN.\<close>

fun num_less :: "number \<Rightarrow> number \<Rightarrow> bool" where
  "num_less (Finite x) (Finite y) = (x < y)"
| "num_less NaN _ = False"
| "num_less _ NaN = False"
| "num_less (Finite x) PosInfinity = True"
| "num_less (Finite x) NegInfinity = False"
| "num_less PosInfinity _ = False"
| "num_less NegInfinity (Finite y) = True"
| "num_less NegInfinity PosInfinity = True"
| "num_less NegInfinity NegInfinity = False"

text \<open>The operators \<open>*\<close> and \<open>-\<close> on numbers.\<close>

fun num_times :: "number \<Rightarrow> number \<Rightarrow> number" where
  "num_times (Finite x) (Finite y) = double (x * y)"
| "num_times NaN _ = NaN"
| "num_times _ NaN = NaN"
| "num_times (Finite x) PosInfinity =
     (if x = 0 then NaN else if 0 < x then PosInfinity else NegInfinity)"
| "num_times (Finite x) NegInfinity =
     (if x = 0 then NaN else if 0 < x then NegInfinity else PosInfinity)"
| "num_times PosInfinity (Finite y) =
     (if y = 0 then NaN else if 0 < y then PosInfinity else NegInfinity)"
| "num_times NegInfinity (Finite y) =
     (if y = 0 then NaN else if 0 < y then NegInfinity else PosInfinity)"
| "num_times PosInfinity PosInfinity = PosInfinity"
| "num_times PosInfinity NegInfinity = NegInfinity"
| "num_times NegInfinity PosInfinity = NegInfinity"
| "num_times NegInfinity NegInfinity = PosInfinity"

fun num_minus :: "number \<Rightarrow> number \<Rightarrow> number" where
  "num_minus (Finite x) (Finite y) = double (x - y)"
| "num_minus NaN _ = NaN"
| "num_minus _ NaN = NaN"
| "num_minus (Finite x) PosInfinity = NegInfinity"
| "num_minus (Finite x) NegInfinity = PosInfinity"
| "num_minus PosInfinity (Finite y) = PosInfinity"
| "num_minus NegInfinity (Finite y) = NegInfinity"
| "num_minus PosInfinity PosInfinity = NaN"
| "num_minus PosInfinity NegInfinity = PosInfinity"
| "num_minus NegInfinity PosInfinity = NegInfinity"
| "num_minus NegInfinity NegInfinity = NaN"

section \<open>JavaScript values and operators used by the bot\<close>

text \<open>
  The values the monitoring code can meet in a reply of the quote service and in the
  arguments of \<open>getPriceQuote\<close>: \<open>undefined\<close>, a number written in the reply (\<open>JNum q\<close>
  is the number \<open>double q\<close>), NaN, a string, an array of strings (a trade path). A
  string is the list of its UTF-16 code units, each below 256.
\<close>

datatype error = TypeError | ServiceError string | ThrownNullish

datatype jsval = JUndefined | JNum rat | JNaN | JStr string | JArr "string list"

text \<open>\<open>Array.prototype.join(',')\<close> on an array of strings.\<close>

fun join_comma :: "string list \<Rightarrow> string" where
  "join_comma [] = []"
| "join_comma [x] = x"
| "join_comma (x # y # ys) = x @ '','' @ join_comma (y # ys)"

text \<open>
  \<open>StringToNumber\<close> of ECMAScript. White space and line terminators (tab, LF, VT, FF,
  CR, space, NBSP among the code units below 256) are stripped at both ends.
\<close>

definition is_white :: "char \<Rightarrow> bool" where
  "is_white c = ((of_char c :: nat) \<in> {9, 10, 11, 12, 13, 32, 160})"

definition trim :: "string \<Rightarrow> string" where
  "trim s = rev (dropWhile is_white (rev (dropWhile is_white s)))"

text \<open>The value of a digit, 16 for a character that is no digit in any base.\<close>

definition digit_of :: "char \<Rightarrow> int" where
  "digit_of c =
     (let n = (of_char c :: int)
      in if 48 \<le> n \<and> n \<le> 57 then n - 48
         else if 97 \<le> n \<and> n \<le> 102 then n - 87
         else if 65 \<le> n \<and> n \<le> 70 then n - 55
         else 16)"

definition digits_in :: "int \<Rightarrow> string \<Rightarrow> bool" where
  "digits_in base s = list_all (\<lambda>c. digit_of c < base) s"

definition number_in :: "int \<Rightarrow> string \<Rightarrow> int" where
  "number_in base s = foldl (\<lambda>acc c. base * acc + digit_of c) 0 s"

text \<open>\<open>0x\<close>, \<open>0o\<close> and \<open>0b\<close> literals: no sign, at least one digit.\<close>

definition nondecimal :: "string \<Rightarrow> int option" where
  "nondecimal s =
     (case s of
        c0 # c1 # ds \<Rightarrow>
          (if c0 \<noteq> CHR ''0'' \<or> ds = [] then None
           else if (c1 = CHR ''x'' \<or> c1 = CHR ''X'') \<and> digits_in 16 ds then Some (number_in 16 ds)
           else if (c1 = CHR ''o'' \<or> c1 = CHR ''O'') \<and> digits_in 8 ds then Some (number_in 8 ds)
           else if (c1 = CHR ''b'' \<or> c1 = CHR ''B'') \<and> digits_in 2 ds then Some (number_in 2 ds)
           else None)
      | _ \<Rightarrow> None)"

text \<open>The exponent after \<open>e\<close> or \<open>E\<close>: an optional sign and at least one digit.\<close>

definition exponent :: "string \<Rightarrow> int option" where
  "exponent s =
     (case s of
        [] \<Rightarrow> None
      | c # ds \<Rightarrow>
          (if c = CHR ''+'' then (if ds \<noteq> [] \<and> digits_in 10 ds then Some (number_in 10 ds) else None)
           else if c = CHR ''-'' then (if ds \<noteq> [] \<and> digits_in 10 ds then Some (- number_in 10 ds) else None)
           else if digits_in 10 s then Some (number_in 10 s) else None))"

definition is_e :: "char \<Rightarrow> bool" where
  "is_e c = (c = CHR ''e'' \<or> c = CHR ''E'')"

text \<open>
  An unsigned decimal literal: digits with an optional fraction, at least one digit in
  all, and an optional exponent. The result is its mathematical value.
\<close>

definition decimal :: "string \<Rightarrow> rat option" where
  "decimal s =
     (let m = takeWhile (\<lambda>c. \<not> is_e c) s;
          x = dropWhile (\<lambda>c. \<not> is_e c) s;
          ip = takeWhile (\<lambda>c. c \<noteq> CHR ''.'') m;
          fp = (case dropWhile (\<lambda>c. c \<noteq> CHR ''.'') m of [] \<Rightarrow> [] | _ # t \<Rightarrow> t);
          mantissa = of_int (number_in 10 (ip @ fp)) / 10 ^ length fp
      in if digits_in 10 ip \<and> digits_in 10 fp \<and> ip @ fp \<noteq> [] then
           (case x of
              [] \<Rightarrow> Some mantissa
            | _ # ex \<Rightarrow>
                (case exponent ex of None \<Rightarrow> None | Some k \<Rightarrow> Some (mantissa * 10 powi k)))
         else None)"

definition unsigned :: "string \<Rightarrow> number" where
  "unsigned s =
     (if s = ''Infinity'' then PosInfinity
      else case decimal s of None \<Rightarrow> NaN | Some q \<Rightarrow> double q)"

definition StringToNumber :: "string \<Rightarrow> number" where
  "StringToNumber s =
     (case trim s of
        [] \<Rightarrow> Finite 0
      | c # r \<Rightarrow>
          (case nondecimal (c # r) of
             Some n \<Rightarrow> double (of_int n)
           | None \<Rightarrow>
               (if c = CHR ''+'' then unsigned r
                else if c = CHR ''-'' then neg (unsigned r)
                else unsigned (c # r))))"

text \<open>\<open>ToPrimitive\<close>: an array becomes the string of its joined elements.\<close>

fun string_like :: "jsval \<Rightarrow> string option" where
  "string_like (JStr s) = Some s"
| "string_like (JArr xs) = Some (join_comma xs)"
| "string_like _ = None"

fun ToNumber :: "jsval \<Rightarrow> number" where
  "ToNumber JUndefined = NaN"
| "ToNumber (JNum q) = double q"
| "ToNumber JNaN = NaN"
| "ToNumber (JStr s) = StringToNumber s"
| "ToNumber (JArr xs) = StringToNumber (join_comma xs)"

text \<open>Strings compare by code units, lexicographically; a proper prefix is smaller.\<close>

fun str_less :: "string \<Rightarrow> string \<Rightarrow> bool" where
  "str_less _ [] = False"
| "str_less [] (_ # _) = True"
| "str_less (a # s) (b # t) =
     (if a = b then str_less s t else (of_char a :: nat) < of_char b)"

text \<open>
  The operator \<open><\<close>: two strings compare as strings, anything else as numbers.
  \<open>a > b\<close> is \<open>b < a\<close>.
\<close>

definition js_less :: "jsval \<Rightarrow> jsval \<Rightarrow> bool" where
  "js_less a b =
     (case (string_like a, string_like b) of
        (Some s, Some t) \<Rightarrow> str_less s t
      | _ \<Rightarrow> num_less (ToNumber a) (ToNumber b))"

definition js_greater :: "jsval \<Rightarrow> jsval \<Rightarrow> bool" where
  "js_greater a b = js_less b a"

text \<open>
  \<open>maxUSDTValue * (1 - stopLossPercentage)\<close>: the subtraction and the product are
  number operations, the left operand of \<open>*\<close> being converted.
\<close>

definition threshold :: "jsval \<Rightarrow> rat \<Rightarrow> number" where
  "threshold mx f = num_times (ToNumber mx) (num_minus (Finite 1) (double f))"

text \<open>\<open>v < n\<close> with a number on the right: the left operand is converted.\<close>

definition less_than :: "jsval \<Rightarrow> number \<Rightarrow> bool" where
  "less_than v n = num_less (ToNumber v) n"

section \<open>The quote service: \<open>ExpandSwap.getPriceQuote\<close>\<close>

text \<open>
  What one HTTP request to the quote service does: it fails (axios throws), or it returns
  a body; \<open>Body (Some xs)\<close> is a body whose \<open>data.amountsOut\<close> is the array \<open>xs\<close>,
  \<open>Body None\<close> a body without \<open>data.amountsOut\<close>.
\<close>

datatype reply = Fails error | Body "jsval list option"

datatype call =
  ApprovePrepare | ApproveSign | ApproveSend | GetPrice | SwapPrepare | SwapSign | SwapSend

record ExpandSwap =
  dexId :: string
  chainId :: string

text \<open>
  \<open>getPriceQuote(dexId, path, amountIn)\<close>: \<open>path.join(',')\<close> is evaluated before the
  request is sent and throws a TypeError unless \<open>path\<close> is an array. The result is the
  list of requests made and the returned body or the error thrown.
\<close>

definition getPriceQuote ::
    "jsval \<Rightarrow> jsval \<Rightarrow> jsval \<Rightarrow> reply \<Rightarrow> call list \<times> (error + jsval list option)" where
  "getPriceQuote dexId' path amountIn r =
     (case path of
        JArr p \<Rightarrow> (case r of Fails e \<Rightarrow> ([GetPrice], Inl e) | Body b \<Rightarrow> ([GetPrice], Inr b))
      | _ \<Rightarrow> ([], Inl TypeError))"

text \<open>
  \<open>priceQuote.data.amountsOut[1]\<close>: a TypeError when \<open>data.amountsOut\<close> is missing,
  \<open>undefined\<close> when the array has no index 1.
\<close>

definition amountsOut1 :: "jsval list option \<Rightarrow> error + jsval" where
  "amountsOut1 b =
     (case b of
        None \<Rightarrow> Inl TypeError
      | Some xs \<Rightarrow> Inr (if 1 < length xs then xs ! 1 else JUndefined))"

section \<open>\<open>monitorTokenPrice\<close>\<close>

text \<open>
  The frame of one call of \<open>monitorTokenPrice\<close>: its parameters, its local
  \<open>maxUSDTValue\<close>, whether it has executed \<open>return true\<close>, the number of quote requests it
  has made and the errors it has passed to \<open>console.error\<close>.
\<close>

record monitor =
  expandSwap :: ExpandSwap
  tokenPath :: "string list"
  amount :: jsval
  stopLossPercentage :: rat
  maxUSDTValue :: jsval
  returned :: bool
  requests :: nat
  logged :: "error list"

definition monitorTokenPrice ::
    "ExpandSwap \<Rightarrow> string list \<Rightarrow> jsval \<Rightarrow> rat \<Rightarrow> monitor" where
  "monitorTokenPrice es path amt f =
     \<lparr>expandSwap = es, tokenPath = path, amount = amt, stopLossPercentage = f,
      maxUSDTValue = JNum 0, returned = False, requests = 0, logged = []\<rparr>"

text \<open>The quote fetch of one iteration: the request, then \<open>.data.amountsOut[1]\<close>.\<close>

definition fetch :: "monitor \<Rightarrow> reply \<Rightarrow> error + jsval" where
  "fetch m r =
     (case snd (getPriceQuote (JStr (dexId (expandSwap m))) (JArr (tokenPath m)) (amount m) r) of
        Inl e \<Rightarrow> Inl e
      | Inr b \<Rightarrow> amountsOut1 b)"

text \<open>
  One pass through the body of \<open>while (true)\<close>, given what the quote request of that
  pass does. A monitor that has returned runs no further pass.
\<close>

definition iteration :: "monitor \<Rightarrow> reply \<Rightarrow> monitor" where
  "iteration m r =
     (if returned m then m
      else case fetch m r of
        Inl e \<Rightarrow> m\<lparr>requests := requests m + 1, logged := logged m @ [e]\<rparr>
      | Inr usdtValue \<Rightarrow>
          (let mx = (if js_greater usdtValue (maxUSDTValue m) then usdtValue
                     else maxUSDTValue m)
           in m\<lparr>maxUSDTValue := mx,
                returned := less_than usdtValue (threshold mx (stopLossPercentage m)),
                requests := requests m + 1\<rparr>))"

text \<open>The loop, over the replies of its successive quote requests.\<close>

definition polls :: "monitor \<Rightarrow> reply list \<Rightarrow> monitor" where
  "polls m rs = foldl iteration m rs"

text \<open>A reply that carries the quote value \<open>v\<close> at index 1 of \<open>amountsOut\<close>.\<close>

definition quote :: "jsval \<Rightarrow> reply" where
  "quote v = Body (Some [JUndefined, v])"

text \<open>A value that is not a negative number: NaN counts, and so does \<open>+Infinity\<close>.\<close>

definition nonneg :: "jsval \<Rightarrow> bool" where
  "nonneg v = (\<not> num_less (ToNumber v) (Finite 0))"

section \<open>The swap service: \<open>approveToken\<close> and \<open>executeSwap\<close>\<close>

text \<open>
  What one call into the expand-network SDK does: it throws, it resolves to \<open>undefined\<close>
  or \<open>null\<close>, it resolves to an object whose \<open>response.data.status\<close> is 400, or it
  resolves to anything else. \<open>Throws ThrownNullish\<close> is a call that throws \<open>undefined\<close>
  or \<open>null\<close>.
\<close>

datatype outcome = Throws error | Nullish | Rejected400 | Fine

record world =
  approvePrepared :: outcome
  approveSigned :: outcome
  approveSent :: outcome
  quoted :: reply
  swapPrepared :: outcome
  swapSigned :: outcome
  swapSent :: outcome

datatype receipt = ApproveReceipt

text \<open>
  \<open>approveToken\<close>: a status 400 of the prepared transaction or of the receipt is logged
  and the method returns \<open>undefined\<close> (here \<open>None\<close>). The status of the signed
  transaction is not looked at; when it is \<open>undefined\<close> or \<open>null\<close>, reading its
  \<open>chainId\<close> throws a TypeError before anything is sent. Whatever is thrown is logged
  and thrown again.
\<close>

definition approveToken :: "world \<Rightarrow> call list \<times> (error + receipt option)" where
  "approveToken w =
     (case approvePrepared w of
        Throws e \<Rightarrow> ([ApprovePrepare], Inl e)
      | Rejected400 \<Rightarrow> ([ApprovePrepare], Inr None)
      | _ \<Rightarrow>
          (case approveSigned w of
             Throws e \<Rightarrow> ([ApprovePrepare, ApproveSign], Inl e)
           | Nullish \<Rightarrow> ([ApprovePrepare, ApproveSign], Inl TypeError)
           | _ \<Rightarrow>
               (case approveSent w of
                  Throws e \<Rightarrow> ([ApprovePrepare, ApproveSign, ApproveSend], Inl e)
                | Rejected400 \<Rightarrow> ([ApprovePrepare, ApproveSign, ApproveSend], Inr None)
                | Nullish \<Rightarrow> ([ApprovePrepare, ApproveSign, ApproveSend], Inr None)
                | Fine \<Rightarrow>
                    ([ApprovePrepare, ApproveSign, ApproveSend], Inr (Some ApproveReceipt)))))"

definition prepareSwapTransaction :: "world \<Rightarrow> call list \<times> (error + unit)" where
  "prepareSwapTransaction w =
     (case swapPrepared w of
        Throws e \<Rightarrow> ([SwapPrepare], Inl e)
      | _ \<Rightarrow> ([SwapPrepare], Inr ()))"

text \<open>
  The \<open>catch\<close> of \<open>executeSwap\<close> reads \<open>error.response\<close> before it throws the error
  again: on a thrown \<open>undefined\<close> or \<open>null\<close> that read throws a TypeError instead.
\<close>

definition rethrown :: "error \<Rightarrow> error" where
  "rethrown e = (if e = ThrownNullish then TypeError else e)"

text \<open>
  \<open>executeSwap(tokenPath, amountIn)\<close>: the result of \<open>approveToken\<close> is not looked at.
  A signed transaction or a receipt that is \<open>undefined\<close> or \<open>null\<close> makes the code
  throw a TypeError at \<open>signedSwapTx.chainId\<close> or \<open>swapReceipt.data\<close>. The method has
  no \<open>return\<close> with a value, so a normal return gives \<open>undefined\<close>.
\<close>

definition executeSwap ::
    "ExpandSwap \<Rightarrow> string list \<Rightarrow> jsval \<Rightarrow> world \<Rightarrow> call list \<times> (error + jsval)" where
  "executeSwap es path amountIn w =
     (case approveToken w of
        (t1, Inl e) \<Rightarrow> (t1, Inl (rethrown e))
      | (t1, Inr _) \<Rightarrow>
          (case getPriceQuote (JStr (dexId es)) (JArr path) amountIn (quoted w) of
             (t2, Inl e) \<Rightarrow> (t1 @ t2, Inl (rethrown e))
           | (t2, Inr _) \<Rightarrow>
               (case prepareSwapTransaction w of
                  (t3, Inl e) \<Rightarrow> (t1 @ t2 @ t3, Inl (rethrown e))
                | (t3, Inr _) \<Rightarrow>
                    (case swapSigned w of
                       Throws e \<Rightarrow> (t1 @ t2 @ t3 @ [SwapSign], Inl (rethrown e))
                     | Nullish \<Rightarrow> (t1 @ t2 @ t3 @ [SwapSign], Inl TypeError)
                     | _ \<Rightarrow>
                         (case swapSent w of
                            Throws e \<Rightarrow> (t1 @ t2 @ t3 @ [SwapSign, SwapSend], Inl (rethrown e))
                          | Nullish \<Rightarrow> (t1 @ t2 @ t3 @ [SwapSign, SwapSend], Inl TypeError)
                          | Rejected400 \<Rightarrow> (t1 @ t2 @ t3 @ [SwapSign, SwapSend], Inr JUndefined)
                          | Fine \<Rightarrow> (t1 @ t2 @ t3 @ [SwapSign, SwapSend], Inr JUndefined))))))"

text \<open>
  The same in words. Each call fails with what it throws; signing, and sending the swap,
  also fail with a TypeError when they yield \<open>undefined\<close> or \<open>null\<close>.
\<close>

fun failure :: "world \<Rightarrow> call \<Rightarrow> error option" where
  "failure w ApprovePrepare = (case approvePrepared w of Throws e \<Rightarrow> Some e | _ \<Rightarrow> None)"
| "failure w ApproveSign =
     (case approveSigned w of Throws e \<Rightarrow> Some e | Nullish \<Rightarrow> Some TypeError | _ \<Rightarrow> None)"
| "failure w ApproveSend = (case approveSent w of Throws e \<Rightarrow> Some e | _ \<Rightarrow> None)"
| "failure w GetPrice = (case quoted w of Fails e \<Rightarrow> Some e | Body _ \<Rightarrow> None)"
| "failure w SwapPrepare = (case swapPrepared w of Throws e \<Rightarrow> Some e | _ \<Rightarrow> None)"
| "failure w SwapSign =
     (case swapSigned w of Throws e \<Rightarrow> Some e | Nullish \<Rightarrow> Some TypeError | _ \<Rightarrow> None)"
| "failure w SwapSend =
     (case swapSent w of Throws e \<Rightarrow> Some e | Nullish \<Rightarrow> Some TypeError | _ \<Rightarrow> None)"

text \<open>
  The calls in their order: the approval (which stops after its first call when that is
  answered with status 400), the quote, then the swap prepared, signed and sent.
\<close>

definition planned :: "world \<Rightarrow> call list" where
  "planned w =
     (if approvePrepared w = Rejected400 then [ApprovePrepare]
      else [ApprovePrepare, ApproveSign, ApproveSend])
     @ [GetPrice, SwapPrepare, SwapSign, SwapSend]"

text \<open>The calls made, up to the first that fails, and its error.\<close>

fun attempt :: "world \<Rightarrow> call list \<Rightarrow> call list \<times> error option" where
  "attempt w [] = ([], None)"
| "attempt w (c # cs) =
     (case failure w c of
        Some e \<Rightarrow> ([c], Some e)
      | None \<Rightarrow> (case attempt w cs of (t, r) \<Rightarrow> (c # t, r)))"

section \<open>\<open>sellToken\<close>\<close>

text \<open>
  \<open>sellToken(expandSwap, tokenPath, amount)\<close>: \<open>amount.toString()\<close> throws a TypeError
  on \<open>undefined\<close>; the string only travels to the service. Then the swap, then a quote
  whose \<open>amountsOut[1]\<close> is returned.
\<close>

definition sellToken ::
    "ExpandSwap \<Rightarrow> string list \<Rightarrow> jsval \<Rightarrow> world \<Rightarrow> reply \<Rightarrow> call list \<times> (error + jsval)" where
  "sellToken es path amt w r =
     (if amt = JUndefined then ([], Inl TypeError)
      else case executeSwap es path amt w of
        (t1, Inl e) \<Rightarrow> (t1, Inl e)
      | (t1, Inr _) \<Rightarrow>
          (case getPriceQuote (JStr (dexId es)) (JArr path) amt r of
             (t2, Inl e) \<Rightarrow> (t1 @ t2, Inl e)
           | (t2, Inr b) \<Rightarrow> (t1 @ t2, amountsOut1 b)))"

section \<open>\<open>processNewEntries\<close>: buying\<close>

record entry =
  blockchain :: string
  ticker :: string
  contract_address :: string

text \<open>
  An element of \<open>boughtTokens\<close>. The fields \<open>expandSwap\<close> and \<open>amount\<close> of the source
  object are \<open>token_expandSwap\<close> and \<open>token_amount\<close> here.
\<close>

record token = entry +
  usdt_address :: string
  token_amount :: jsval
  token_expandSwap :: ExpandSwap

text \<open>
  The three tables are object literals: \<open>obj[key]\<close> is the own property, or else a
  member inherited from \<open>Object.prototype\<close> (a function, or the prototype itself for
  \<open>__proto__\<close>), or else \<open>undefined\<close>.
\<close>

definition chainIdMapping :: "(string \<times> string) list" where
  "chainIdMapping =
     [(''Ethereum'', ''1''), (''Binance Smart Chain'', ''56''), (''Polygon'', ''137''),
      (''Avalanche'', ''43114''), (''Arbitrum'', ''42161''), (''Fantom'', ''250'')]"

definition dexIdMapping :: "(string \<times> string) list" where
  "dexIdMapping =
     [(''Ethereum'', ''1300''), (''Binance Smart Chain'', ''1200''), (''Avalanche'', ''1305''),
      (''Polygon'', ''1307''), (''Arbitrum'', ''1308''), (''Base'', ''1309''),
      (''Solana'', ''2700'')]"

definition USDTMapping :: "(string \<times> string) list" where
  "USDTMapping =
     [(''Ethereum'', ''0xdAC17F958D2ee523a2206206994597C13D831ec7''),
      (''Solana'', ''Es9vMFrzaCERmJfrF4H2FYD4KCoNkY11McCe8BenwNYB''),
      (''Polygon'', ''0xc2132D05D31c914a87C6611C10748AEb04B58e8F'')]"

definition objectPrototype :: "string list" where
  "objectPrototype =
     [''constructor'', ''__defineGetter__'', ''__defineSetter__'', ''hasOwnProperty'',
      ''__lookupGetter__'', ''__lookupSetter__'', ''isPrototypeOf'', ''propertyIsEnumerable'',
      ''toString'', ''valueOf'', ''__proto__'', ''toLocaleString'']"

datatype property = Own string | Inherited string | Absent

definition property :: "(string \<times> string) list \<Rightarrow> string \<Rightarrow> property" where
  "property obj key =
     (case map_of obj key of
        Some v \<Rightarrow> Own v
      | None \<Rightarrow> if key \<in> set objectPrototype then Inherited key else Absent)"

fun truthy :: "property \<Rightarrow> bool" where
  "truthy (Own v) = (v \<noteq> [])"
| "truthy (Inherited k) = True"
| "truthy Absent = False"

text \<open>
  The code only ever joins \<open>usdt_address\<close> into a path: the token keeps the text that
  \<open>join\<close> gives for the property.
\<close>

fun joined :: "property \<Rightarrow> string" where
  "joined (Own v) = v"
| "joined (Inherited k) =
     (if k = ''__proto__'' then ''[object Object]''
      else ''function '' @ k @ ''() { [native code] }'')"
| "joined Absent = []"

definition buyTokenPath :: "string list" where
  "buyTokenPath =
     [''0xc2132D05D31c914a87C6611C10748AEb04B58e8F'',
      ''0x7ceB23fD6bC0adD59E62ac25578270cFf1b9f619'']"

text \<open>
  The body of the buying loop for one entry, given what its swap and its quote request
  do. The quote is asked with \<open>getPriceQuote(buyTokenPath, amountIn)\<close>: two arguments,
  so that \<open>dexId\<close> is the path, \<open>path\<close> is \<open>amountIn\<close> and \<open>amountIn\<close> is \<open>undefined\<close>.
  Every error is caught and logged; the entry then gives no token.
\<close>

definition buy :: "jsval \<Rightarrow> entry \<Rightarrow> world \<Rightarrow> reply \<Rightarrow> call list \<times> token option" where
  "buy amountIn en w r =
     (if \<not> truthy (property chainIdMapping (blockchain en))
         \<or> \<not> truthy (property dexIdMapping (blockchain en))
         \<or> \<not> truthy (property USDTMapping (blockchain en))
      then ([], None)
      else
        (let es = \<lparr>dexId = ''1307'', chainId = ''137''\<rparr> in
         case executeSwap es buyTokenPath amountIn w of
           (t1, Inl e) \<Rightarrow> (t1, None)
         | (t1, Inr _) \<Rightarrow>
             (case getPriceQuote (JArr buyTokenPath) amountIn JUndefined r of
                (t2, Inl e) \<Rightarrow> (t1 @ t2, None)
              | (t2, Inr b) \<Rightarrow>
                  (case amountsOut1 b of
                     Inl e \<Rightarrow> (t1 @ t2, None)
                   | Inr boughtAmount \<Rightarrow>
                       (t1 @ t2,
                        Some \<lparr>blockchain = blockchain en, ticker = ticker en,
                              contract_address = ''0xC02aaA39b223FE8D0A0e5C4F27eAD9083C756Cc2'',
                              usdt_address = joined (property USDTMapping (blockchain en)),
                              token_amount = boughtAmount,
                              token_expandSwap = es\<rparr>)))))"

text \<open>
  The buying loop over the entries, each with what its swap and quote request do: the
  calls made to the services, and \<open>boughtTokens\<close>.
\<close>

fun buyLoop :: "jsval \<Rightarrow> (entry \<times> world \<times> reply) list \<Rightarrow> call list \<times> token list" where
  "buyLoop amountIn [] = ([], [])"
| "buyLoop amountIn ((en, w, r) # rest) =
     (case (buy amountIn en w r, buyLoop amountIn rest) of
        ((t, None), (ts, toks)) \<Rightarrow> (t @ ts, toks)
      | ((t, Some tok), (ts, toks)) \<Rightarrow> (t @ ts, tok # toks))"

section \<open>\<open>processNewEntries\<close>: the race and the sells\<close>

text \<open>
  The promise of \<open>processNewEntries\<close> after the buying loop: it waits for
  \<open>Promise.race\<close>, or for the \<open>sellToken\<close> of the token with the given index (the indices
  still to sell follow), or it is fulfilled, or rejected with an error.
\<close>

datatype phase = Racing | Selling nat "nat list" | Completed | Rejected error

text \<open>
  Tokens are objects compared by identity (\<open>token !== tokenToSell\<close>): a token is its
  index in \<open>boughtTokens\<close>. \<open>sellCalls\<close> lists the tokens for which \<open>sellToken\<close> has
  been called, \<open>sold\<close> those whose \<open>sellToken\<close> has returned, with the amount returned.
\<close>

record coordinator =
  boughtTokens :: "token list"
  monitorPromises :: "monitor list"
  tokenToSell :: "nat option"
  phase :: phase
  sellCalls :: "nat list"
  sold :: "(nat \<times> jsval) list"

text \<open>
  The monitors are started with the default \<open>stopLossPercentage = 0.001\<close>.
\<close>

definition startMonitoring :: "token list \<Rightarrow> coordinator" where
  "startMonitoring toks =
     \<lparr>boughtTokens = toks,
      monitorPromises =
        map (\<lambda>t. monitorTokenPrice (token_expandSwap t) [contract_address t, usdt_address t]
                   (token_amount t) (1 / 1000)) toks,
      tokenToSell = None, phase = Racing, sellCalls = [], sold = []\<rparr>"

definition processNewEntries :: "jsval \<Rightarrow> (entry \<times> world \<times> reply) list \<Rightarrow> coordinator" where
  "processNewEntries amountIn batch = startMonitoring (snd (buyLoop amountIn batch))"

text \<open>
  The event loop delivers one completion at a time: the quote request of monitor \<open>i\<close>
  completes (\<open>Poll\<close>), or the \<open>sellToken\<close> that \<open>processNewEntries\<close> awaits completes
  (\<open>SellDone\<close>), each with what the services did.
\<close>

datatype event = Poll nat reply | SellDone world reply

definition others :: "nat \<Rightarrow> nat \<Rightarrow> nat list" where
  "others i n = filter (\<lambda>j. j \<noteq> i) [0..<n]"

fun deliver :: "coordinator \<Rightarrow> event \<Rightarrow> coordinator" where
  "deliver c (Poll i r) =
     (if i < length (monitorPromises c) then
        (let m = monitorPromises c ! i; m' = iteration m r;
             c' = c\<lparr>monitorPromises := (monitorPromises c)[i := m']\<rparr>
         in if phase c = Racing \<and> \<not> returned m \<and> returned m'
            then c'\<lparr>tokenToSell := Some i,
                    phase := Selling i (others i (length (boughtTokens c))),
                    sellCalls := [i]\<rparr>
            else c')
      else c)"
| "deliver c (SellDone w r) =
     (case phase c of
        Selling i rest \<Rightarrow>
          (let t = boughtTokens c ! i in
           case snd (sellToken (token_expandSwap t) [contract_address t, usdt_address t]
                       (token_amount t) w r) of
             Inl e \<Rightarrow> c\<lparr>phase := Rejected e\<rparr>
           | Inr v \<Rightarrow>
               (case rest of
                  [] \<Rightarrow> c\<lparr>phase := Completed, sold := sold c @ [(i, v)]\<rparr>
                | j # rest' \<Rightarrow>
                    c\<lparr>phase := Selling j rest', sellCalls := sellCalls c @ [j],
                      sold := sold c @ [(i, v)]\<rparr>))
      | _ \<Rightarrow> c)"

definition run :: "coordinator \<Rightarrow> event list \<Rightarrow> coordinator" where
  "run c evs = foldl deliver c evs"

section \<open>\<open>main\<close>\<close>

text \<open>
  The discovery loop: each cycle awaits the scraper, starts \<open>processNewEntries\<close> without
  awaiting it when the list is not empty, and sleeps. \<open>Scraped\<close> is one cycle, with the
  scraped entries or the error of the scraper; \<open>Task k ev\<close> is a completion delivered to
  the \<open>k\<close>-th started \<open>processNewEntries\<close>.
\<close>

record program =
  cycles :: nat
  tasks :: "coordinator list"

datatype main_event = Scraped "error + (entry \<times> world \<times> reply) list" | Task nat event

fun main_step :: "program \<Rightarrow> main_event \<Rightarrow> program" where
  "main_step p (Scraped (Inl e)) = p\<lparr>cycles := cycles p + 1\<rparr>"
| "main_step p (Scraped (Inr newEntries)) =
     (if length newEntries > 0
      then p\<lparr>cycles := cycles p + 1,
             tasks := tasks p @ [processNewEntries (JStr ''1000'') newEntries]\<rparr>
      else p\<lparr>cycles := cycles p + 1\<rparr>)"
| "main_step p (Task k ev) =
     (if k < length (tasks p) then p\<lparr>tasks := (tasks p)[k := deliver (tasks p ! k) ev]\<rparr>
      else p)"

definition main :: "main_event list \<Rightarrow> program" where
  "main evs = foldl main_step \<lparr>cycles = 0, tasks = []\<rparr> evs"

fun is_Scraped :: "main_event \<Rightarrow> bool" where
  "is_Scraped (Scraped _) = True"
| "is_Scraped (Task _ _) = False"

section \<open>What holds of every state of \<open>processNewEntries\<close>\<close>

text \<open>
  The order in which \<open>processNewEntries\<close> calls \<open>sellToken\<close> once token \<open>w\<close> has won the
  race: \<open>w\<close>, then the other tokens in the order of \<open>boughtTokens\<close>.
\<close>

definition sellOrder :: "nat \<Rightarrow> nat \<Rightarrow> nat list" where
  "sellOrder w n = w # others w n"

definition consistent :: "coordinator \<Rightarrow> bool" where
  "consistent c =
     (length (monitorPromises c) = length (boughtTokens c) \<and>
      (case phase c of
         Racing \<Rightarrow> tokenToSell c = None \<and> sellCalls c = [] \<and> sold c = []
       | Selling i rest \<Rightarrow>
           (case tokenToSell c of
              None \<Rightarrow> False
            | Some w \<Rightarrow>
                w < length (boughtTokens c) \<and> sellCalls c \<noteq> [] \<and> last (sellCalls c) = i
                \<and> sellCalls c @ rest = sellOrder w (length (boughtTokens c))
                \<and> map fst (sold c) = butlast (sellCalls c))
       | Completed \<Rightarrow>
           (case tokenToSell c of
              None \<Rightarrow> False
            | Some w \<Rightarrow>
                w < length (boughtTokens c)
                \<and> sellCalls c = sellOrder w (length (boughtTokens c))
                \<and> map fst (sold c) = sellCalls c)
       | Rejected e \<Rightarrow>
           (case tokenToSell c of
              None \<Rightarrow> False
            | Some w \<Rightarrow>
                w < length (boughtTokens c) \<and> sellCalls c \<noteq> []
                \<and> prefix (sellCalls c) (sellOrder w (length (boughtTokens c)))
                \<and> map fst (sold c) = butlast (sellCalls c))))"

definition all_consistent :: "program \<Rightarrow> bool" where
  "all_consistent p = list_all consistent (tasks p)"

section \<open>Concrete inputs\<close>

definition polygonSwap :: ExpandSwap where
  "polygonSwap = \<lparr>dexId = ''1307'', chainId = ''137''\<rparr>"

definition sellPath :: "string list" where
  "sellPath =
     [''0xC02aaA39b223FE8D0A0e5C4F27eAD9083C756Cc2'',
      ''0xc2132D05D31c914a87C6611C10748AEb04B58e8F'']"

text \<open>A monitor as \<open>processNewEntries\<close> starts it, and one with a stop loss of 10%.\<close>

definition M0 :: monitor where
  "M0 = monitorTokenPrice polygonSwap sellPath (JStr ''1000'') (1 / 1000)"


text \<open>A world in which every call of a swap succeeds, and two in which one does not.\<close>

definition fine :: world where
  "fine = \<lparr>approvePrepared = Fine, approveSigned = Fine, approveSent = Fine,
            quoted = quote (JStr ''1''), swapPrepared = Fine, swapSigned = Fine,
            swapSent = Fine\<rparr>"

definition approvalRejected :: world where
  "approvalRejected = fine\<lparr>approvePrepared := Rejected400\<rparr>"

definition swapRejected :: world where
  "swapRejected = fine\<lparr>swapSent := Rejected400\<rparr>"

definition swapFails :: world where
  "swapFails = fine\<lparr>swapSent := Throws (ServiceError ''swap failed'')\<rparr>"

definition tokenA :: token where
  "tokenA = \<lparr>blockchain = ''Polygon'', ticker = ''AAA'',
              contract_address = ''0xC02aaA39b223FE8D0A0e5C4F27eAD9083C756Cc2'',
              usdt_address = ''0xc2132D05D31c914a87C6611C10748AEb04B58e8F'',
              token_amount = JStr ''500'', token_expandSwap = polygonSwap\<rparr>"

definition tokenB :: token where
  "tokenB = tokenA\<lparr>ticker := ''BBB'', token_amount := JStr ''700''\<rparr>"


text \<open>
  The first token's value falls from 1002003 to 1000000, more than 0.1%: its monitor
  returns. Then \<open>sellToken\<close> returns normally twice.
\<close>

definition firstTriggers :: "event list" where
  "firstTriggers = [Poll 0 (quote (JStr ''1002003'')), Poll 0 (quote (JStr ''1000000''))]"

definition twoSells :: "event list" where
  "twoSells = [SellDone fine (quote (JStr ''999000'')), SellDone fine (quote (JStr ''700000''))]"

definition candidate :: entry where
  "candidate = \<lparr>blockchain = ''Polygon'', ticker = ''AAA'', contract_address = ''0x01''\<rparr>"

section \<open>Facts about rounding\<close>

lemma pow2_le_iff: "(2::rat) powi i \<le> 2 powi j \<longleftrightarrow> i \<le> j"
  using power_int_increasing [of i j "2::rat"] power_int_strict_increasing [of j i "2::rat"]
  by (auto simp: not_le [symmetric])

lemma pow2_less_iff: "(2::rat) powi i < 2 powi j \<longleftrightarrow> i < j"
  using pow2_le_iff [of j i] by (auto simp: not_le [symmetric])

lemma ilog2_bounds:
  assumes "0 < a"
  shows "2 powi (ilog2 a) \<le> a \<and> a < 2 powi (ilog2 a + 1)"
proof -
  obtain p q where pq: "quotient_of a = (p, q)" by force
  have q: "0 < q" using quotient_of_denom_pos [OF pq] .
  have a: "a = of_int p / of_int q" using quotient_of_div [OF pq] .
  have p: "0 < p" using assms q by (simp add: a zero_less_divide_iff)
  let ?bp = "bitlen p" and ?bq = "bitlen q"
  have bp: "1 \<le> ?bp" and bq: "1 \<le> ?bq"
    using p q bitlen_eq_zero_iff [of p] bitlen_eq_zero_iff [of q] bitlen_nonneg [of p] bitlen_nonneg [of q]
    by linarith+
  have "(2::int) ^ nat (?bp - 1) \<le> p" "p < 2 ^ nat ?bp"
    using bitlen_bounds [OF p] by simp_all
  then have "(of_int (2 ^ nat (?bp - 1)) :: rat) \<le> of_int p" "(of_int p :: rat) < of_int (2 ^ nat ?bp)"
    by (simp_all only: of_int_le_iff of_int_less_iff)
  then have P: "(2::rat) powi (?bp - 1) \<le> of_int p" "(of_int p :: rat) < 2 powi ?bp"
    using bp by (simp_all add: power_int_nonneg_exp)
  have "(2::int) ^ nat (?bq - 1) \<le> q" "q < 2 ^ nat ?bq"
    using bitlen_bounds [OF q] by simp_all
  then have "(of_int (2 ^ nat (?bq - 1)) :: rat) \<le> of_int q" "(of_int q :: rat) < of_int (2 ^ nat ?bq)"
    by (simp_all only: of_int_le_iff of_int_less_iff)
  then have Q: "(2::rat) powi (?bq - 1) \<le> of_int q" "(of_int q :: rat) < 2 powi ?bq"
    using bq by (simp_all add: power_int_nonneg_exp)
  have qpos: "(0::rat) < of_int q" using q by simp
  have ppos: "(0::rat) < of_int p" using p by simp
  let ?d = "?bp - ?bq"
  have up: "a < 2 powi (?d + 1)"
  proof -
    have "of_int p < (2::rat) powi ?bp" by (rule P(2))
    also have "\<dots> = 2 powi (?d + 1) * 2 powi (?bq - 1)"
      by (simp flip: power_int_add)
    also have "\<dots> \<le> 2 powi (?d + 1) * of_int q"
      using Q(1) by (intro mult_left_mono) simp_all
    finally show ?thesis using qpos by (simp add: a pos_divide_less_eq)
  qed
  have lo: "2 powi (?d - 1) < a"
  proof -
    have "2 powi (?d - 1) * of_int q < (2::rat) powi (?d - 1) * 2 powi ?bq"
      using Q(2) by (intro mult_strict_left_mono) simp_all
    also have "\<dots> = 2 powi (?bp - 1)"
      by (simp flip: power_int_add)
    also have "\<dots> \<le> of_int p" by (rule P(1))
    finally show ?thesis using qpos by (simp add: a pos_less_divide_eq)
  qed
  show ?thesis
  proof (cases "2 powi ?d \<le> a")
    case True
    then have "ilog2 a = ?d" by (simp add: ilog2_def pq)
    with True up show ?thesis by simp
  next
    case False
    then have "ilog2 a = ?d - 1" by (simp add: ilog2_def pq)
    with False lo show ?thesis by simp
  qed
qed

lemma ilog2_unique:
  assumes "0 < a" "2 powi e \<le> a" "a < 2 powi (e + 1)"
  shows "ilog2 a = e"
proof -
  from ilog2_bounds [OF assms(1)]
  have b: "2 powi (ilog2 a) \<le> a" "a < 2 powi (ilog2 a + 1)" by simp_all
  have "(2::rat) powi e < 2 powi (ilog2 a + 1)" using assms(2) b(2) by simp
  moreover have "(2::rat) powi (ilog2 a) < 2 powi (e + 1)" using assms(3) b(1) by simp
  ultimately show ?thesis by (simp add: pow2_less_iff)
qed

lemma ilog2_mono:
  assumes "0 < a" "a \<le> b"
  shows "ilog2 a \<le> ilog2 b"
proof -
  have "0 < b" using assms by simp
  from ilog2_bounds [OF assms(1)] ilog2_bounds [OF this]
  have "(2::rat) powi (ilog2 a) < 2 powi (ilog2 b + 1)" using assms(2) by simp
  then show ?thesis by (simp add: pow2_less_iff)
qed

lemma round_even_int [simp]: "round_even (of_int n) = n"
  by (simp add: round_even_def Let_def)

lemma round_even_between: "\<lfloor>x\<rfloor> \<le> round_even x \<and> round_even x \<le> \<lfloor>x\<rfloor> + 1"
  by (simp add: round_even_def Let_def)

lemma round_even_mono:
  assumes "x \<le> y"
  shows "round_even x \<le> round_even y"
proof (cases "\<lfloor>x\<rfloor> = \<lfloor>y\<rfloor>")
  case True
  then show ?thesis using assms by (auto simp: round_even_def Let_def)
next
  case False
  then have "\<lfloor>x\<rfloor> + 1 \<le> \<lfloor>y\<rfloor>" using assms floor_mono [OF assms] by linarith
  with round_even_between [of x] round_even_between [of y] show ?thesis by linarith
qed

lemma round_even_ge: "of_int n \<le> x \<Longrightarrow> n \<le> round_even x"
  using round_even_mono [of "of_int n" x] by simp

lemma round_even_le: "x \<le> of_int n \<Longrightarrow> round_even x \<le> n"
  using round_even_mono [of x "of_int n"] by simp


lemma ulp_pos [simp]: "0 < ulp a"
  by (simp add: ulp_def)

lemma ulp_nonneg [simp]: "0 \<le> ulp a"
  by (simp add: ulp_def)

lemma round_even_0 [simp]: "round_even 0 = 0"
  using round_even_int [of 0] by simp

lemma round_even_numeral [simp]: "round_even (numeral k) = numeral k"
  using round_even_int [of "numeral k"] by simp

lemma nearest_upper:
  assumes "a \<le> of_int n * ulp a"
  shows "nearest a \<le> of_int n * ulp a"
proof -
  have "a / ulp a \<le> of_int n" using assms by (simp add: pos_divide_le_eq)
  then have "round_even (a / ulp a) \<le> n" by (rule round_even_le)
  then have "(of_int (round_even (a / ulp a)) :: rat) \<le> of_int n" by simp
  then show ?thesis unfolding nearest_def by (intro mult_right_mono) simp_all
qed

lemma nearest_lower:
  assumes "of_int n * ulp a \<le> a"
  shows "of_int n * ulp a \<le> nearest a"
proof -
  have "of_int n \<le> a / ulp a" using assms by (simp add: pos_le_divide_eq)
  then have "n \<le> round_even (a / ulp a)" by (rule round_even_ge)
  then have "(of_int n :: rat) \<le> of_int (round_even (a / ulp a))" by simp
  then show ?thesis unfolding nearest_def by (intro mult_right_mono) simp_all
qed

lemma pow2_split: "(2::rat) powi (e + 1) = of_int (2 ^ 53) * 2 powi (e - 52)"
proof -
  have "(2::rat) powi (53 + (e - 52)) = 2 powi 53 * 2 powi (e - 52)"
    by (rule power_int_add) simp
  then show ?thesis by (simp add: add.commute)
qed

lemma pow2_split': "(2::rat) powi e = of_int (2 ^ 52) * 2 powi (e - 52)"
proof -
  have "(2::rat) powi (52 + (e - 52)) = 2 powi 52 * 2 powi (e - 52)"
    by (rule power_int_add) simp
  then show ?thesis by simp
qed

lemma nearest_below_next_power:
  assumes "0 < a"
  shows "nearest a \<le> 2 powi (max (ilog2 a) (- 1022) + 1)"
proof -
  let ?e = "max (ilog2 a) (- 1022)"
  have "a < 2 powi (ilog2 a + 1)" using ilog2_bounds [OF assms] by simp
  also have "\<dots> \<le> 2 powi (?e + 1)" by (simp add: pow2_le_iff)
  finally have "a \<le> of_int (2 ^ 53) * ulp a"
    unfolding ulp_def pow2_split [symmetric] by simp
  then have "nearest a \<le> of_int (2 ^ 53) * ulp a" by (rule nearest_upper)
  then show ?thesis unfolding ulp_def pow2_split [symmetric] .
qed

lemma nearest_above_power:
  assumes "0 < a" "- 1022 \<le> ilog2 a"
  shows "2 powi (ilog2 a) \<le> nearest a"
proof -
  have e: "max (ilog2 a) (- 1022) = ilog2 a" using assms(2) by simp
  have "2 powi (ilog2 a) \<le> a" using ilog2_bounds [OF assms(1)] by simp
  then have "of_int (2 ^ 52) * ulp a \<le> a"
    unfolding ulp_def e pow2_split' [symmetric] .
  then have "of_int (2 ^ 52) * ulp a \<le> nearest a" by (rule nearest_lower)
  then show ?thesis unfolding ulp_def e pow2_split' [symmetric] .
qed

lemma nearest_nonneg: "0 \<le> a \<Longrightarrow> 0 \<le> nearest a"
  using nearest_lower [of 0 a] by simp

lemma nearest_mono:
  assumes "0 < a" "a \<le> b"
  shows "nearest a \<le> nearest b"
proof -
  have b: "0 < b" using assms by simp
  let ?ea = "max (ilog2 a) (- 1022)" and ?eb = "max (ilog2 b) (- 1022)"
  have le: "?ea \<le> ?eb" using ilog2_mono [OF assms] by simp
  show ?thesis
  proof (cases "?ea = ?eb")
    case True
    then have u: "ulp a = ulp b" by (simp add: ulp_def)
    have "a / ulp b \<le> b / ulp b" using assms(2) by (intro divide_right_mono) simp_all
    then have "round_even (a / ulp b) \<le> round_even (b / ulp b)" by (rule round_even_mono)
    then have "(of_int (round_even (a / ulp b)) :: rat) \<le> of_int (round_even (b / ulp b))"
      by simp
    then show ?thesis unfolding nearest_def u by (intro mult_right_mono) simp_all
  next
    case False
    with le have lt: "?ea + 1 \<le> ?eb" by simp
    then have eb: "?eb = ilog2 b" and norm: "- 1022 \<le> ilog2 b" by simp_all
    have "nearest a \<le> 2 powi (?ea + 1)" using assms(1) by (rule nearest_below_next_power)
    also have "\<dots> \<le> 2 powi (ilog2 b)" using lt eb by (simp add: pow2_le_iff)
    also have "\<dots> \<le> nearest b" using b norm by (rule nearest_above_power)
    finally show ?thesis .
  qed
qed

lemma nearest_grid:
  assumes "0 < m" "m \<le> 2 ^ 53" "- 1022 \<le> e" "2 ^ 52 \<le> m \<or> e = - 1022"
  shows "nearest (of_int m * 2 powi (e - 52)) = of_int m * 2 powi (e - 52)"
proof -
  let ?u = "(2::rat) powi (e - 52)"
  let ?x = "of_int m * ?u"
  have x: "0 < ?x" using assms(1) by simp
  have upper: "?x \<le> 2 powi (e + 1)"
  proof -
    have "(of_int m :: rat) \<le> of_int (2 ^ 53)" using assms(2) by (simp only: of_int_le_iff)
    then have "?x \<le> of_int (2 ^ 53) * ?u" by (intro mult_right_mono) simp_all
    then show ?thesis by (simp only: pow2_split)
  qed
  show ?thesis
  proof (cases "m = 2 ^ 53")
    case True
    then have xe: "?x = 2 powi (e + 1)" by (simp only: pow2_split)
    have "ilog2 ((2::rat) powi (e + 1)) = e + 1"
      by (rule ilog2_unique) (simp_all add: pow2_le_iff pow2_less_iff)
    then have u: "ulp ((2::rat) powi (e + 1)) = 2 powi (e - 51)"
      using assms(3) by (simp add: ulp_def)
    have split: "(2::rat) powi (e + 1) = of_int (2 ^ 52) * 2 powi (e - 51)"
      using pow2_split' [of "e + 1"] by simp
    have "(2::rat) powi (e + 1) / 2 powi (e - 51) = of_int (2 ^ 52)"
      by (subst split) simp
    then have "round_even ((2::rat) powi (e + 1) / 2 powi (e - 51)) = 2 ^ 52"
      by (simp only: round_even_int)
    then have "nearest ((2::rat) powi (e + 1)) = of_int (2 ^ 52) * 2 powi (e - 51)"
      by (simp only: nearest_def u)
    then show ?thesis by (simp only: xe split [symmetric])
  next
    case False
    with assms(2) have m: "m < 2 ^ 53" by simp
    have lt: "?x < 2 powi (e + 1)"
    proof -
      have "(of_int m :: rat) < of_int (2 ^ 53)" using m by (simp only: of_int_less_iff)
      then have "?x < of_int (2 ^ 53) * ?u" by (intro mult_strict_right_mono) simp_all
      then show ?thesis by (simp only: pow2_split)
    qed
    have "max (ilog2 ?x) (- 1022) = e"
    proof (cases "2 ^ 52 \<le> m")
      case True
      have "(of_int (2 ^ 52) :: rat) \<le> of_int m" using True by (simp only: of_int_le_iff)
      then have "of_int (2 ^ 52) * ?u \<le> ?x" by (intro mult_right_mono) simp_all
      then have "2 powi e \<le> ?x" by (simp only: pow2_split' [symmetric])
      with x lt have "ilog2 ?x = e" by (intro ilog2_unique)
      with assms(3) show ?thesis by simp
    next
      case False
      with assms(4) have e: "e = - 1022" by simp
      have "2 powi (ilog2 ?x) \<le> ?x" using ilog2_bounds [OF x] by simp
      also note lt
      finally have "ilog2 ?x < e + 1" by (simp add: pow2_less_iff)
      then show ?thesis using e by simp
    qed
    then have u: "ulp ?x = ?u" by (simp add: ulp_def)
    show ?thesis by (simp add: nearest_def u)
  qed
qed

lemma nearest_idem:
  assumes "0 < a"
  shows "nearest (nearest a) = nearest a"
proof (cases "round_even (a / ulp a) = 0")
  case True
  then have z: "nearest a = 0" by (simp add: nearest_def)
  show ?thesis unfolding z by (simp add: nearest_def)
next
  case False
  let ?e = "max (ilog2 a) (- 1022)" and ?m = "round_even (a / ulp a)"
  have "0 \<le> a / ulp a" using assms by simp
  then have "0 \<le> ?m" using round_even_ge [of 0 "a / ulp a"] by simp
  with False have m0: "0 < ?m" by simp
  have "nearest a \<le> 2 powi (?e + 1)" using assms by (rule nearest_below_next_power)
  then have "of_int ?m * ulp a \<le> of_int (2 ^ 53) * ulp a"
    unfolding nearest_def ulp_def pow2_split [symmetric] .
  then have "(of_int ?m :: rat) \<le> of_int (2 ^ 53)" by (simp only: mult_le_cancel_right_pos ulp_pos)
  then have m53: "?m \<le> 2 ^ 53" by (simp only: of_int_le_iff)
  have norm: "2 ^ 52 \<le> ?m \<or> ?e = - 1022"
  proof (cases "- 1022 \<le> ilog2 a")
    case True
    then have e: "?e = ilog2 a" by simp
    have "2 powi (ilog2 a) \<le> nearest a" using assms True by (rule nearest_above_power)
    then have "of_int (2 ^ 52) * ulp a \<le> of_int ?m * ulp a"
      unfolding nearest_def ulp_def e pow2_split' [symmetric] .
    then have "(of_int (2 ^ 52) :: rat) \<le> of_int ?m"
      by (simp only: mult_le_cancel_right_pos ulp_pos)
    then show ?thesis by (simp only: of_int_le_iff) simp
  next
    case False
    then show ?thesis by simp
  qed
  have "nearest (of_int ?m * 2 powi (?e - 52)) = of_int ?m * 2 powi (?e - 52)"
    using m0 m53 _ norm by (rule nearest_grid) simp
  then show ?thesis by (simp add: nearest_def ulp_def)
qed


lemma double_pos_cases:
  assumes "0 < a"
  shows "(double_pos a = PosInfinity \<and> 2 powi 1024 \<le> nearest a)
       \<or> (double_pos a = Finite (nearest a) \<and> nearest a < 2 powi 1024 \<and> 0 \<le> nearest a)"
  using nearest_nonneg [of a] assms by (auto simp: double_pos_def)

lemma double_pos_mono:
  assumes "0 < a" "a \<le> b"
  shows "\<not> num_less (double_pos b) (double_pos a)"
proof -
  have "nearest a \<le> nearest b" using assms by (rule nearest_mono)
  then show ?thesis by (auto simp: double_pos_def)
qed

lemma double_pos_mono_neg:
  assumes "0 < a" "a \<le> b"
  shows "\<not> num_less (neg (double_pos a)) (neg (double_pos b))"
proof -
  have "nearest a \<le> nearest b" using assms by (rule nearest_mono)
  then show ?thesis by (auto simp: double_pos_def)
qed

lemma double_nonneg:
  assumes "0 \<le> q"
  shows "double q = PosInfinity \<or> (\<exists>x. double q = Finite x \<and> 0 \<le> x)"
proof (cases "q = 0")
  case True
  then show ?thesis by (simp add: double_def)
next
  case False
  with assms have "0 < q" by simp
  with double_pos_cases [OF this] show ?thesis by (auto simp: double_def)
qed

lemma double_neg: "double (- q) = neg (double q)"
  by (cases "q = 0"; cases "0 < q") (auto simp: double_def double_pos_def)

lemma double_nonpos:
  assumes "q \<le> 0"
  shows "double q = NegInfinity \<or> (\<exists>x. double q = Finite x \<and> x \<le> 0)"
proof -
  have "0 \<le> - q" using assms by simp
  from double_nonneg [OF this] show ?thesis
    unfolding double_neg by (cases "double q") auto
qed

lemma double_mono:
  assumes "a \<le> b"
  shows "\<not> num_less (double b) (double a)"
proof -
  consider "0 < a" | "a \<le> 0" "0 \<le> b" | "b < 0" by linarith
  then show ?thesis
  proof cases
    case 1
    with assms have "0 < b" by simp
    with 1 double_pos_mono [OF 1 assms] show ?thesis by (simp add: double_def)
  next
    case 2
    from double_nonpos [OF 2(1)] double_nonneg [OF 2(2)] show ?thesis by auto
  next
    case 3
    with assms have a: "a < 0" by simp
    have "0 < - b" "- b \<le> - a" using 3 assms by simp_all
    from double_pos_mono_neg [OF this] show ?thesis using 3 a by (simp add: double_def)
  qed
qed

lemma double_pos_idem:
  assumes "0 < a" "double_pos a = Finite x"
  shows "double x = Finite x"
proof -
  from assms have x: "x = nearest a" "nearest a < 2 powi 1024"
    by (auto simp: double_pos_def split: if_splits)
  have nn: "0 \<le> nearest a" using assms(1) by (simp add: nearest_nonneg)
  show ?thesis
  proof (cases "nearest a = 0")
    case True
    then show ?thesis by (simp add: x double_def)
  next
    case False
    with nn have "0 < nearest a" by simp
    then show ?thesis
      using nearest_idem [OF assms(1)] x by (simp add: double_def double_pos_def)
  qed
qed

lemma double_idem:
  assumes "double q = Finite x"
  shows "double x = Finite x"
proof -
  consider "q = 0" | "0 < q" | "q < 0" by linarith
  then show ?thesis
  proof cases
    case 1
    with assms show ?thesis by (auto simp: double_def)
  next
    case 2
    with assms have "double_pos q = Finite x" by (simp add: double_def)
    with 2 show ?thesis by (rule double_pos_idem)
  next
    case 3
    then have p: "0 < - q" by simp
    from assms 3 have "neg (double_pos (- q)) = Finite x" by (simp add: double_def)
    then have "double_pos (- q) = Finite (- x)" by (cases "double_pos (- q)") auto
    from double_pos_idem [OF p this] have "double (- x) = Finite (- x)" .
    then show ?thesis unfolding double_neg by (cases "double x") auto
  qed
qed

lemma double_not_NaN [simp]: "double q \<noteq> NaN"
  using double_nonneg [of q] double_nonpos [of q] by (cases "0 \<le> q") auto

lemma double_0 [simp]: "double 0 = Finite 0"
  by (simp add: double_def)

lemma double_eval:
  assumes "0 < a" "2 powi e \<le> a" "a < 2 powi (e + 1)" "- 1022 \<le> e" "e \<le> 1022"
  shows "double a = Finite (of_int (round_even (a / 2 powi (e - 52))) * 2 powi (e - 52))"
proof -
  have il: "ilog2 a = e" using assms(1-3) by (rule ilog2_unique)
  then have u: "ulp a = 2 powi (e - 52)" using assms(4) by (simp add: ulp_def)
  have "nearest a \<le> 2 powi (max (ilog2 a) (- 1022) + 1)"
    using assms(1) by (rule nearest_below_next_power)
  also have "\<dots> = 2 powi (e + 1)" using il assms(4) by simp
  also have "\<dots> < 2 powi 1024" using assms(5) by (simp only: pow2_less_iff)
  finally show ?thesis using assms(1) by (simp add: double_def double_pos_def nearest_def u)
qed

lemma double_1 [simp]: "double 1 = Finite 1"
  using double_eval [of 1 0] by simp

lemma round_even_near:
  assumes "\<bar>x - of_int n\<bar> < 1 / 2"
  shows "round_even x = n"
proof -
  consider "of_int n \<le> x" | "x < of_int n" by linarith
  then show ?thesis
  proof cases
    case 1
    with assms have "\<lfloor>x\<rfloor> = n" by (intro floor_unique) linarith+
    with assms 1 show ?thesis by (simp add: round_even_def Let_def)
  next
    case 2
    with assms have "\<lfloor>x\<rfloor> = n - 1" by (intro floor_unique) (simp, linarith)+
    with assms 2 show ?thesis by (auto simp: round_even_def Let_def)
  qed
qed

lemma double_near:
  assumes "0 < a" "2 powi e \<le> a" "a < 2 powi (e + 1)" "- 1022 \<le> e" "e \<le> 1022"
    and "\<bar>a / 2 powi (e - 52) - of_int n\<bar> < 1 / 2"
  shows "double a = Finite (of_int n * 2 powi (e - 52))"
  using double_eval [OF assms(1-5)] round_even_near [OF assms(6)] by simp

lemma double_exact:
  assumes "0 < a" "2 powi e \<le> a" "a < 2 powi (e + 1)" "- 1022 \<le> e" "e \<le> 1022"
    and "a / 2 powi (e - 52) = of_int n"
  shows "double a = Finite a"
proof -
  have "a = of_int n * 2 powi (e - 52)" using assms(6) by (simp add: field_simps)
  then show ?thesis using double_eval [OF assms(1-5)] by (simp add: assms(6))
qed

lemma double_above:
  assumes "c \<le> p" "double c = Finite c" "b < c"
  shows "num_less (Finite b) (double p)"
  using double_mono [OF assms(1)] assms(2,3) double_not_NaN [of p]
  by (cases "double p") auto

lemma unit_interval:
  assumes "0 \<le> q" "q \<le> 1"
  shows "\<exists>x. double q = Finite x \<and> 0 \<le> x \<and> x \<le> 1"
  using double_mono [OF assms(1)] double_mono [OF assms(2)] double_not_NaN [of q]
  by (cases "double q") auto

lemma fraction_range:
  assumes "0 < f" "f < 1"
  shows "\<exists>k. num_minus (Finite 1) (double f) = Finite k \<and> 0 \<le> k \<and> k \<le> 1"
proof -
  from unit_interval [of f] assms obtain g where g: "double f = Finite g" "0 \<le> g" "g \<le> 1"
    by auto
  from unit_interval [of "1 - g"] g obtain k where "double (1 - g) = Finite k" "0 \<le> k" "k \<le> 1"
    by auto
  with g show ?thesis by simp
qed

section \<open>Facts about the operators\<close>

lemma unsigned_range:
  "unsigned s = NaN \<or> unsigned s = PosInfinity \<or> (\<exists>q. unsigned s = double q)"
  by (auto simp: unsigned_def split: option.splits)

lemma StringToNumber_range:
  "StringToNumber s = NaN \<or> StringToNumber s = PosInfinity \<or> StringToNumber s = NegInfinity
   \<or> (\<exists>q. StringToNumber s = double q)"
proof (cases "trim s")
  case Nil
  then have "StringToNumber s = double 0" by (simp add: StringToNumber_def)
  then show ?thesis by blast
next
  case (Cons c r)
  show ?thesis
  proof (cases "nondecimal (c # r)")
    case (Some n)
    with Cons show ?thesis by (auto simp: StringToNumber_def)
  next
    case None
    have eq: "StringToNumber s =
        (if c = CHR ''+'' then unsigned r
         else if c = CHR ''-'' then neg (unsigned r) else unsigned (c # r))"
      using Cons None by (simp add: StringToNumber_def)
    show ?thesis
      using unsigned_range [of r] unsigned_range [of "c # r"]
      unfolding eq by (auto simp flip: double_neg)
  qed
qed

lemma ToNumber_range:
  "ToNumber v = NaN \<or> ToNumber v = PosInfinity \<or> ToNumber v = NegInfinity
   \<or> (\<exists>q. ToNumber v = double q)"
  using StringToNumber_range by (cases v) auto

lemma num_less_PosInfinity [simp]: "\<not> num_less PosInfinity b"
  by (cases b) simp_all

lemma num_less_irrefl [simp]: "\<not> num_less a a"
  by (cases a) simp_all

lemma ToNumber_representable:
  assumes "ToNumber v = Finite x"
  shows "double x = Finite x"
proof -
  from ToNumber_range [of v] assms obtain q where "double q = Finite x"
    by auto
  then show ?thesis by (rule double_idem)
qed

lemma no_drop_below_self:
  assumes "0 < f" "f < 1" "nonneg v"
  shows "\<not> less_than v (threshold v f)"
proof -
  from fraction_range [OF assms(1,2)] obtain k
    where k: "num_minus (Finite 1) (double f) = Finite k" "0 \<le> k" "k \<le> 1" by blast
  show ?thesis
  proof (cases "ToNumber v")
    case (Finite x)
    with assms(3) have x: "0 \<le> x" by (simp add: nonneg_def)
    have "x * k \<le> x" using x k(3) by (simp add: mult_left_le)
    from double_mono [OF this] ToNumber_representable [OF Finite]
    show ?thesis by (simp add: less_than_def threshold_def Finite k)
  next
    case NegInfinity
    with assms(3) show ?thesis by (simp add: nonneg_def)
  qed (simp_all add: less_than_def threshold_def)
qed

lemma js_greater_numbers: "js_greater (JNum x) (JNum h) \<longleftrightarrow> num_less (double h) (double x)"
  by (simp add: js_greater_def js_less_def)

lemma js_greater_zero: "js_greater v (JNum 0) \<longleftrightarrow> num_less (Finite 0) (ToNumber v)"
  by (cases v) (simp_all add: js_greater_def js_less_def)

lemma positive_nonneg: "num_less (Finite 0) (ToNumber v) \<Longrightarrow> nonneg v"
  by (cases "ToNumber v") (auto simp: nonneg_def)

section \<open>Facts about one monitor\<close>

lemma fetch_quote: "fetch m (quote v) = Inr v"
  by (simp add: fetch_def getPriceQuote_def amountsOut1_def quote_def)

lemma fetch_Fails: "fetch m (Fails e) = Inl e"
  by (simp add: fetch_def getPriceQuote_def)

lemma fetch_no_amounts: "fetch m (Body None) = Inl TypeError"
  by (simp add: fetch_def getPriceQuote_def amountsOut1_def)

lemma fetch_error_cases:
  "fetch m r = Inl e \<longleftrightarrow> r = Fails e \<or> (r = Body None \<and> e = TypeError)"
  by (cases r) (auto simp: fetch_def getPriceQuote_def amountsOut1_def split: option.splits)

lemma iteration_returned: "returned m \<Longrightarrow> iteration m r = m"
  by (simp add: iteration_def)

lemma polls_Cons: "polls m (r # rs) = polls (iteration m r) rs"
  by (simp add: polls_def)

lemma polls_snoc: "polls m (rs @ [r]) = iteration (polls m rs) r"
  by (simp add: polls_def)

lemma polls_returned: "returned m \<Longrightarrow> polls m rs = m"
  by (induction rs) (simp_all add: polls_def iteration_returned)

lemma iteration_failure:
  "\<not> returned m \<Longrightarrow> fetch m r = Inl e \<Longrightarrow>
     iteration m r = m\<lparr>requests := requests m + 1, logged := logged m @ [e]\<rparr>"
  by (simp add: iteration_def)

lemma iteration_quote:
  "\<not> returned m \<Longrightarrow> fetch m r = Inr v \<Longrightarrow>
     iteration m r =
       m\<lparr>maxUSDTValue := (if js_greater v (maxUSDTValue m) then v else maxUSDTValue m),
         returned :=
           less_than v (threshold (if js_greater v (maxUSDTValue m) then v else maxUSDTValue m)
                          (stopLossPercentage m)),
         requests := requests m + 1\<rparr>"
  by (simp add: iteration_def Let_def)

lemma stopLoss_iteration: "stopLossPercentage (iteration m r) = stopLossPercentage m"
  by (simp add: iteration_def Let_def split: sum.splits)

lemma stopLoss_polls: "stopLossPercentage (polls m rs) = stopLossPercentage m"
  by (induction rs arbitrary: m) (simp_all add: polls_def stopLoss_iteration)

lemma fetch_after_failure:
  "fetch (m\<lparr>requests := n, logged := l\<rparr>) r = fetch m r"
  by (simp add: fetch_def)


lemma requests_iteration: "\<not> returned m \<Longrightarrow> requests (iteration m r) = requests m + 1"
  by (simp add: iteration_def Let_def split: sum.splits)

text \<open>The first value that is greater than 0 becomes the mark, and no drop is seen.\<close>

lemma first_quote:
  assumes "0 < f" "f < 1" "num_less (Finite 0) (ToNumber v)"
  shows "iteration (monitorTokenPrice es path amt f) (quote v)
           = (monitorTokenPrice es path amt f)\<lparr>maxUSDTValue := v, requests := 1\<rparr>"
proof -
  let ?m = "monitorTokenPrice es path amt f"
  have up: "js_greater v (maxUSDTValue ?m)"
    using assms(3) by (simp add: monitorTokenPrice_def js_greater_zero)
  have "\<not> less_than v (threshold v f)"
    using assms positive_nonneg by (intro no_drop_below_self)
  then show ?thesis
    using iteration_quote [of ?m "quote v" v] up
    by (simp add: fetch_quote) (simp add: monitorTokenPrice_def)
qed

section \<open>Concrete numbers\<close>

lemmas parse_defs =
  StringToNumber_def trim_def is_white_def nondecimal_def unsigned_def decimal_def is_e_def
  digits_in_def digit_of_def number_in_def exponent_def


lemma double_5: "double 5 = Finite 5"
  using double_exact [of 5 2 "5 * 2 ^ 50"] by simp





lemma double_998877: "double 998877 = Finite 998877"
  using double_exact [of 998877 19 "998877 * 2 ^ 33"] by simp

lemma double_1000000: "double 1000000 = Finite 1000000"
  using double_exact [of 1000000 19 "1000000 * 2 ^ 33"] by simp

lemma double_1001000: "double 1001000 = Finite 1001000"
  using double_exact [of 1001000 19 "1001000 * 2 ^ 33"] by simp

lemma double_1002003: "double 1002003 = Finite 1002003"
  using double_exact [of 1002003 19 "1002003 * 2 ^ 33"] by simp

lemma number_5: "StringToNumber ''5'' = Finite 5"
  by (simp add: parse_defs double_5)





lemma number_998877: "StringToNumber ''998877'' = Finite 998877"
  by (simp add: parse_defs double_998877)

lemma number_1000000: "StringToNumber ''1000000'' = Finite 1000000"
  by (simp add: parse_defs double_1000000)

lemma number_1002003: "StringToNumber ''1002003'' = Finite 1002003"
  by (simp add: parse_defs double_1002003)





text \<open>\<open>1 - 0.001\<close> and \<open>1 - 0.1\<close> as the code computes them.\<close>

lemma double_thousandth:
  "double (1 / 1000) = Finite (1152921504606847 / 1152921504606846976)"
  using double_near [of "1 / 1000" "- 10" 4611686018427388] by simp

lemma one_minus_thousandth:
  "num_minus (Finite 1) (double (1 / 1000)) = Finite (8998192055486251 / 9007199254740992)"
  using double_near [of "1 - 1152921504606847 / 1152921504606846976" "- 1" 8998192055486251]
  by (simp add: double_thousandth)





lemma threshold_1002003:
  "num_less (Finite 1000000) (threshold (JStr ''1002003'') (1 / 1000))"
  unfolding threshold_def one_minus_thousandth
  by (simp add: number_1002003)
     (rule double_above [of 1001000], simp_all add: double_1001000)


section \<open>The high-water mark\<close>

text \<open>
  While the quote values are JavaScript numbers that are not negative, \<open>maxUSDTValue\<close> of
  a monitor that has not returned is the greatest value seen. The values are taken to be
  doubles already.
\<close>

lemma numeric_high_water_mark:
  assumes "maxUSDTValue m = JNum h" "double h = Finite h"
    and "\<forall>x \<in> set xs. double x = Finite x"
    and "\<not> returned (polls m (map (\<lambda>x. quote (JNum x)) xs))"
  shows "maxUSDTValue (polls m (map (\<lambda>x. quote (JNum x)) xs)) = JNum (fold max xs h)"
  using assms
proof (induction xs arbitrary: m h)
  case Nil
  then show ?case by (simp add: polls_def)
next
  case (Cons x xs)
  let ?m = "iteration m (quote (JNum x))"
  have run: "\<not> returned m"
    using Cons.prems(4) polls_returned [of m] by auto
  have x: "double x = Finite x" using Cons.prems(3) by simp
  have mx: "maxUSDTValue ?m = JNum (max x h)"
    using iteration_quote [OF run fetch_quote, of "JNum x"] Cons.prems(1,2) x
    by (simp add: js_greater_numbers max_def)
  have d: "double (max x h) = Finite (max x h)"
    using x Cons.prems(2) by (simp add: max_def)
  have "\<not> returned (polls ?m (map (\<lambda>x. quote (JNum x)) xs))"
    using Cons.prems(4) by (simp add: polls_Cons)
  from Cons.IH [OF mx d _ this] Cons.prems(3) show ?case by (simp add: polls_Cons)
qed

lemma numeric_high_water_mark_is_maximum:
  assumes "xs \<noteq> []" "\<forall>x \<in> set xs. 0 \<le> x" "\<forall>x \<in> set xs. double x = Finite x"
    and "\<not> returned (polls (monitorTokenPrice es path amt f) (map (\<lambda>x. quote (JNum x)) xs))"
  shows "maxUSDTValue (polls (monitorTokenPrice es path amt f) (map (\<lambda>x. quote (JNum x)) xs))
           = JNum (Max (set xs))"
proof -
  have "maxUSDTValue (polls (monitorTokenPrice es path amt f) (map (\<lambda>x. quote (JNum x)) xs))
          = JNum (fold max xs 0)"
    using assms(3,4) by (intro numeric_high_water_mark) (simp_all add: monitorTokenPrice_def)
  also have "fold max xs 0 = Max (set (0 # xs))"
    by (simp only: Max.set_eq_fold)
  also have "\<dots> = Max (set xs)"
  proof -
    have "Max (insert 0 (set xs)) = max 0 (Max (set xs))"
      using assms(1) by (intro Max_insert) simp_all
    moreover have "0 \<le> Max (set xs)"
      using assms(1,2) by (meson List.finite_set Max_in set_empty)
    ultimately show ?thesis by simp
  qed
  finally show ?thesis .
qed

text \<open>
  Claim C1: the high-water mark never decreases and, after each successful poll of a
  watching monitor, is the maximum quote value seen so far. The quote service sends
  decimal strings. The first value is compared with the number 0, as a number, and stored
  as a string; from then on \<open>usdtValue > maxUSDTValue\<close> compares two strings, by code
  units. After the quotes 1002003 and 998877 the mark is 998877: it has decreased, it is
  not the maximum, and the monitor has not returned although the value fell by more than
  0.1%.
\<close>

theorem high_water_mark_falls_on_decimal_strings:
  "maxUSDTValue (polls M0 [quote (JStr ''1002003'')]) = JStr ''1002003''
   \<and> maxUSDTValue (polls M0 [quote (JStr ''1002003''), quote (JStr ''998877'')]) = JStr ''998877''
   \<and> \<not> returned (polls M0 [quote (JStr ''1002003''), quote (JStr ''998877'')])
   \<and> ToNumber (JStr ''1002003'') = Finite 1002003 \<and> ToNumber (JStr ''998877'') = Finite 998877"
proof -
  let ?m1 = "iteration M0 (quote (JStr ''1002003''))"
  have m1: "?m1 = M0\<lparr>maxUSDTValue := JStr ''1002003'', requests := 1\<rparr>"
    unfolding M0_def by (rule first_quote) (simp_all add: number_1002003)
  have run: "\<not> returned ?m1" "stopLossPercentage ?m1 = 1 / 1000"
    unfolding m1 by (simp_all add: M0_def monitorTokenPrice_def)
  have up: "js_greater (JStr ''998877'') (maxUSDTValue ?m1)"
    unfolding m1 by (simp add: js_greater_def js_less_def)
  have "nonneg (JStr ''998877'')"
    by (simp add: nonneg_def number_998877)
  then have "\<not> less_than (JStr ''998877'') (threshold (JStr ''998877'') (1 / 1000))"
    by (intro no_drop_below_self) simp_all
  then have m2: "maxUSDTValue (iteration ?m1 (quote (JStr ''998877''))) = JStr ''998877''"
      "\<not> returned (iteration ?m1 (quote (JStr ''998877'')))"
    using iteration_quote [OF run(1) fetch_quote, of "JStr ''998877''"] up run(2)
    by simp_all
  have first: "maxUSDTValue ?m1 = JStr ''1002003''"
    unfolding m1 by simp
  show ?thesis
    using m2 first by (simp add: polls_def number_1002003 number_998877)
qed

section \<open>The trigger\<close>







section \<open>Failed quote requests\<close>

text \<open>
  Claim C5: when the quote fetch of a poll fails, the monitor logs the error and goes on
  with the next poll: the high-water mark is as before, the monitor has not returned, and
  it sends the next request.
\<close>

theorem fetch_failure_changes_nothing:
  assumes "\<not> returned m" and "fetch m r = Inl e"
  shows "maxUSDTValue (iteration m r) = maxUSDTValue m
       \<and> \<not> returned (iteration m r)
       \<and> logged (iteration m r) = logged m @ [e]
       \<and> requests (iteration m r) = requests m + 1
       \<and> fetch (iteration m r) r' = fetch m r'
       \<and> requests (iteration (iteration m r) r') = requests m + 2"
proof -
  let ?m = "m\<lparr>requests := requests m + 1, logged := logged m @ [e]\<rparr>"
  have step: "iteration m r = ?m" using assms by (rule iteration_failure)
  have again: "requests (iteration ?m r') = requests m + 2"
    using assms(1) by (simp add: requests_iteration)
  show ?thesis using assms(1) again by (simp add: step fetch_after_failure)
qed

theorem fetch_failure_changes_nothing_witness:
  "maxUSDTValue (iteration M0 (Fails (ServiceError ''timeout''))) = JNum 0
   \<and> \<not> returned (iteration M0 (Fails (ServiceError ''timeout'')))
   \<and> logged (iteration M0 (Fails (ServiceError ''timeout''))) = [ServiceError ''timeout'']
   \<and> requests (iteration (iteration M0 (Fails (ServiceError ''timeout''))) (quote (JStr ''7''))) = 2"
  using fetch_failure_changes_nothing
          [of M0 "Fails (ServiceError ''timeout'')" "ServiceError ''timeout''" "quote (JStr ''7'')"]
  by (simp add: fetch_Fails M0_def monitorTokenPrice_def)

section \<open>Facts about \<open>processNewEntries\<close>\<close>

lemma sellOrder_distinct: "distinct (sellOrder w n)"
  by (simp add: sellOrder_def others_def)


lemma run_Nil: "run c [] = c"
  by (simp add: run_def)

lemma run_Cons: "run c (ev # evs) = run (deliver c ev) evs"
  by (simp add: run_def)

lemma run_append: "run c (evs @ evs') = run (run c evs) evs'"
  by (simp add: run_def)

lemma deliver_boughtTokens: "boughtTokens (deliver c ev) = boughtTokens c"
  by (cases ev) (auto simp: Let_def split: phase.splits sum.splits list.splits)

lemma run_boughtTokens: "boughtTokens (run c evs) = boughtTokens c"
  by (induction evs arbitrary: c) (simp_all add: run_Nil run_Cons deliver_boughtTokens)

lemma deliver_length: "length (monitorPromises (deliver c ev)) = length (monitorPromises c)"
  by (cases ev) (auto simp: Let_def split: phase.splits sum.splits list.splits)

lemma deliver_keeps_returned:
  assumes "i < length (monitorPromises c)" "returned (monitorPromises c ! i)"
  shows "monitorPromises (deliver c ev) ! i = monitorPromises c ! i"
proof (cases ev)
  case (Poll j r)
  show ?thesis
  proof (cases "j = i")
    case True
    then show ?thesis using assms Poll by (simp add: Let_def iteration_returned)
  next
    case False
    then show ?thesis using assms Poll by (simp add: Let_def)
  qed
next
  case (SellDone w r)
  then show ?thesis
    by (auto simp: Let_def split: phase.splits sum.splits list.splits)
qed

lemma run_keeps_returned:
  "i < length (monitorPromises c) \<Longrightarrow> returned (monitorPromises c ! i) \<Longrightarrow>
     monitorPromises (run c evs) ! i = monitorPromises c ! i"
proof (induction evs arbitrary: c)
  case Nil
  then show ?case by (simp add: run_Nil)
next
  case (Cons ev evs)
  have same: "monitorPromises (deliver c ev) ! i = monitorPromises c ! i"
    using Cons.prems by (rule deliver_keeps_returned)
  have "monitorPromises (run (deliver c ev) evs) ! i = monitorPromises (deliver c ev) ! i"
    using Cons.prems by (intro Cons.IH) (simp_all add: deliver_length same)
  then show ?case by (simp add: run_Cons same)
qed

lemma deliver_poll_running:
  assumes "i < length (monitorPromises c)" "\<not> returned (monitorPromises c ! i)"
  shows "monitorPromises (deliver c (Poll i r)) ! i = iteration (monitorPromises c ! i) r"
  using assms by (simp add: Let_def)

lemma consistent_start: "consistent (startMonitoring toks)"
  by (simp add: consistent_def startMonitoring_def)

lemma consistent_poll: "consistent c \<Longrightarrow> consistent (deliver c (Poll i r))"
  by (auto simp: consistent_def Let_def sellOrder_def split: phase.splits option.splits)

lemma consistent_sell:
  assumes "consistent c"
  shows "consistent (deliver c (SellDone w r))"
proof (cases "phase c")
  case (Selling i rest)
  then obtain p where p: "tokenToSell c = Some p" "p < length (boughtTokens c)"
      "sellCalls c \<noteq> []" "last (sellCalls c) = i"
      "sellCalls c @ rest = sellOrder p (length (boughtTokens c))"
      "map fst (sold c) = butlast (sellCalls c)"
      and len: "length (monitorPromises c) = length (boughtTokens c)"
    using assms by (auto simp: consistent_def split: option.splits)
  have full: "butlast (sellCalls c) @ [i] = sellCalls c"
    using p(3,4) by (metis append_butlast_last_id)
  have pre: "prefix (sellCalls c) (sellOrder p (length (boughtTokens c)))"
    using p(5) by (metis prefixI)
  let ?t = "boughtTokens c ! i"
  show ?thesis
  proof (cases "snd (sellToken (token_expandSwap ?t) [contract_address ?t, usdt_address ?t]
                       (token_amount ?t) w r)")
    case (Inl e)
    then show ?thesis using Selling p len pre by (simp add: consistent_def)
  next
    case (Inr v)
    show ?thesis
    proof (cases rest)
      case Nil
      then show ?thesis using Selling Inr p len full by (simp add: consistent_def)
    next
      case (Cons j rest')
      then show ?thesis using Selling Inr p len full by (simp add: consistent_def)
    qed
  qed
qed (use assms in \<open>simp_all add: consistent_def\<close>)

lemma consistent_deliver: "consistent c \<Longrightarrow> consistent (deliver c ev)"
  by (cases ev) (simp_all only: consistent_poll consistent_sell)

lemma consistent_run: "consistent c \<Longrightarrow> consistent (run c evs)"
  by (induction evs arbitrary: c) (simp_all add: run_Nil run_Cons consistent_deliver)

lemma settled_deliver:
  "phase c = Completed \<or> phase c = Rejected e \<Longrightarrow>
     phase (deliver c ev) = phase c \<and> sellCalls (deliver c ev) = sellCalls c
     \<and> sold (deliver c ev) = sold c \<and> tokenToSell (deliver c ev) = tokenToSell c"
  by (cases ev) (auto simp: Let_def)

lemma settled_run:
  "phase c = Completed \<or> phase c = Rejected e \<Longrightarrow>
     phase (run c evs) = phase c \<and> sellCalls (run c evs) = sellCalls c
     \<and> sold (run c evs) = sold c \<and> tokenToSell (run c evs) = tokenToSell c"
proof (induction evs arbitrary: c)
  case Nil
  then show ?case by (simp add: run_Nil)
next
  case (Cons ev evs)
  from settled_deliver [OF Cons.prems, of ev]
  have d: "phase (deliver c ev) = phase c" "sellCalls (deliver c ev) = sellCalls c"
     "sold (deliver c ev) = sold c" "tokenToSell (deliver c ev) = tokenToSell c"
    by simp_all
  have "phase (deliver c ev) = Completed \<or> phase (deliver c ev) = Rejected e"
    using Cons.prems d(1) by simp
  from Cons.IH [OF this] show ?case by (simp add: run_Cons d)
qed

lemma reached_consistent: "consistent (run (startMonitoring toks) evs)"
  by (intro consistent_run consistent_start)


lemma consistent_calls:
  assumes "consistent c" "tokenToSell c = Some w"
  shows "w < length (boughtTokens c)
       \<and> prefix (sellCalls c) (sellOrder w (length (boughtTokens c)))"
proof (cases "phase c")
  case (Selling i rest)
  with assms have "w < length (boughtTokens c)"
    and "sellCalls c @ rest = sellOrder w (length (boughtTokens c))"
    by (auto simp: consistent_def)
  then show ?thesis by (metis prefixI)
qed (use assms in \<open>auto simp: consistent_def\<close>)

lemma consistent_no_winner:
  assumes "consistent c" "tokenToSell c = None"
  shows "phase c = Racing \<and> sellCalls c = [] \<and> sold c = []"
  using assms by (cases "phase c") (auto simp: consistent_def)



lemma consistent_primary_in_flight:
  assumes "consistent c" "phase c = Selling i rest" "tokenToSell c = Some i"
  shows "sellCalls c = [i] \<and> sold c = []"
proof -
  from assms have ne: "sellCalls c \<noteq> []" and l: "last (sellCalls c) = i"
    and ord: "sellCalls c @ rest = sellOrder i (length (boughtTokens c))"
    and s: "map fst (sold c) = butlast (sellCalls c)"
    by (auto simp: consistent_def)
  from ne obtain x xs where xs: "sellCalls c = x # xs" by (cases "sellCalls c") auto
  with ord have x: "x = i" by (simp add: sellOrder_def)
  have "distinct (sellCalls c @ rest)" unfolding ord by (rule sellOrder_distinct)
  then have d: "i \<notin> set xs" using xs x by simp
  have "xs = []"
  proof (rule ccontr)
    assume "xs \<noteq> []"
    then have "last (sellCalls c) \<in> set xs" using xs by simp
    with l d show False by simp
  qed
  with xs x s show ?thesis by simp
qed

lemma empty_batch_is_stuck:
  assumes "consistent c" "boughtTokens c = []"
  shows "phase c = Racing \<and> sellCalls c = [] \<and> sold c = [] \<and> deliver c ev = c"
proof -
  have none: "tokenToSell c = None"
  proof (cases "tokenToSell c")
    case (Some w)
    with assms consistent_calls [of c w] show ?thesis by simp
  qed simp
  from consistent_no_winner [OF assms(1) none]
  have r: "phase c = Racing" "sellCalls c = []" "sold c = []" by simp_all
  have "monitorPromises c = []" using assms by (simp add: consistent_def)
  then have "deliver c ev = c" using r(1) by (cases ev) simp_all
  with r show ?thesis by simp
qed

section \<open>Facts about \<open>main\<close>\<close>

lemma main_step_cycles:
  "cycles (main_step p ev) = cycles p + (if is_Scraped ev then 1 else 0)"
  by (cases "(p, ev)" rule: main_step.cases) simp_all

lemma main_step_tasks_length: "length (tasks p) \<le> length (tasks (main_step p ev))"
  by (cases "(p, ev)" rule: main_step.cases) simp_all

lemma main_step_consistent: "all_consistent p \<Longrightarrow> all_consistent (main_step p ev)"
proof (cases "(p, ev)" rule: main_step.cases)
  case (3 p' k e)
  assume a: "all_consistent p"
  show ?thesis
  proof (cases "k < length (tasks p)")
    case True
    have "list_all consistent ((tasks p)[k := deliver (tasks p ! k) e])"
      unfolding list_all_iff
    proof
      fix c assume "c \<in> set ((tasks p)[k := deliver (tasks p ! k) e])"
      then have "c = deliver (tasks p ! k) e \<or> c \<in> set (tasks p)"
        by (meson in_set_remove1 insert_iff set_update_subset_insert subsetD)
      moreover have "consistent (tasks p ! k)"
        using a True by (simp add: all_consistent_def list_all_length)
      ultimately show "consistent c"
        using a by (auto simp: all_consistent_def list_all_iff consistent_deliver)
    qed
    with 3 True show ?thesis by (simp add: all_consistent_def)
  next
    case False
    with 3 a show ?thesis by simp
  qed
qed (simp_all add: all_consistent_def processNewEntries_def consistent_start)

lemma main_step_stuck_task:
  assumes "all_consistent p" "k < length (tasks p)" "boughtTokens (tasks p ! k) = []"
  shows "tasks (main_step p ev) ! k = tasks p ! k"
proof (cases "(p, ev)" rule: main_step.cases)
  case (3 p' j e)
  have c: "consistent (tasks p ! k)"
    using assms(1,2) by (simp add: all_consistent_def list_all_length)
  show ?thesis
  proof (cases "j = k")
    case True
    with 3 assms(2) empty_batch_is_stuck [OF c assms(3), of e] show ?thesis by simp
  next
    case False
    with 3 show ?thesis by simp
  qed
qed (use assms in \<open>simp_all add: nth_append\<close>)

lemma main_run_stuck_task:
  assumes "all_consistent p" "k < length (tasks p)" "boughtTokens (tasks p ! k) = []"
  shows "tasks (foldl main_step p evs) ! k = tasks p ! k
       \<and> cycles (foldl main_step p evs) = cycles p + length (filter is_Scraped evs)"
  using assms
proof (induction evs arbitrary: p)
  case Nil
  then show ?case by simp
next
  case (Cons ev evs)
  let ?p = "main_step p ev"
  have same: "tasks ?p ! k = tasks p ! k"
    using Cons.prems by (rule main_step_stuck_task)
  have k: "k < length (tasks ?p)"
    using Cons.prems(2) main_step_tasks_length [of p ev] by simp
  have "all_consistent ?p" using Cons.prems(1) by (rule main_step_consistent)
  from Cons.IH [OF this k] same Cons.prems(3)
  show ?case by (simp add: main_step_cycles)
qed

lemma main_consistent: "all_consistent (main evs)"
proof -
  have "all_consistent p \<Longrightarrow> all_consistent (foldl main_step p evs)" for p
    by (induction evs arbitrary: p) (simp_all add: main_step_consistent)
  then show ?thesis by (simp add: main_def all_consistent_def)
qed

lemma main_append: "main (evs @ evs') = foldl main_step (main evs) evs'"
  by (simp add: main_def)

section \<open>Evaluating the concrete runs\<close>

lemma sell_fine:
  "amt \<noteq> JUndefined \<Longrightarrow>
     sellToken es path amt fine (quote v) =
       ([ApprovePrepare, ApproveSign, ApproveSend, GetPrice, SwapPrepare, SwapSign, SwapSend,
         GetPrice], Inr v)"
  by (simp add: sellToken_def executeSwap_def approveToken_def prepareSwapTransaction_def
        getPriceQuote_def amountsOut1_def fine_def quote_def)

lemma sell_swapFails:
  "amt \<noteq> JUndefined \<Longrightarrow>
     sellToken es path amt swapFails r =
       ([ApprovePrepare, ApproveSign, ApproveSend, GetPrice, SwapPrepare, SwapSign, SwapSend],
        Inl (ServiceError ''swap failed''))"
  by (simp add: sellToken_def executeSwap_def approveToken_def prepareSwapTransaction_def
        getPriceQuote_def swapFails_def fine_def quote_def rethrown_def)

lemma first_poll_running:
  "iteration (monitorTokenPrice es path amt (1 / 1000)) (quote (JStr ''1002003''))
     = (monitorTokenPrice es path amt (1 / 1000))
         \<lparr>maxUSDTValue := JStr ''1002003'', requests := 1\<rparr>"
  by (rule first_quote) (simp_all add: number_1002003)

lemma triggered_monitor:
  "iteration (iteration (monitorTokenPrice es path amt (1 / 1000)) (quote (JStr ''1002003'')))
     (quote (JStr ''1000000''))
   = (monitorTokenPrice es path amt (1 / 1000))
       \<lparr>maxUSDTValue := JStr ''1002003'', returned := True, requests := 2\<rparr>"
proof -
  let ?m = "(monitorTokenPrice es path amt (1 / 1000))
              \<lparr>maxUSDTValue := JStr ''1002003'', requests := 1\<rparr>"
  have run: "\<not> returned ?m" by (simp add: monitorTokenPrice_def)
  have keep: "\<not> js_greater (JStr ''1000000'') (maxUSDTValue ?m)"
    by (simp add: js_greater_def js_less_def)
  have drop: "less_than (JStr ''1000000'') (threshold (JStr ''1002003'') (1 / 1000))"
    using threshold_1002003 by (simp add: less_than_def number_1000000)
  show ?thesis
    unfolding first_poll_running
    using iteration_quote [OF run fetch_quote, of "JStr ''1000000''"] keep drop
    by (simp add: monitorTokenPrice_def)
qed

lemma first_triggers:
  "run (startMonitoring (tokenA # toks)) firstTriggers =
     (startMonitoring (tokenA # toks))
       \<lparr>monitorPromises :=
          (monitorTokenPrice polygonSwap sellPath (JStr ''500'') (1 / 1000))
              \<lparr>maxUSDTValue := JStr ''1002003'', returned := True, requests := 2\<rparr>
          # monitorPromises (startMonitoring toks),
        tokenToSell := Some 0, phase := Selling 0 (others 0 (Suc (length toks))),
        sellCalls := [0]\<rparr>"
proof -
  let ?m = "monitorTokenPrice polygonSwap sellPath (JStr ''500'') (1 / 1000)"
  let ?c = "startMonitoring (tokenA # toks)"
  have start: "monitorPromises ?c = ?m # monitorPromises (startMonitoring toks)"
      "phase ?c = Racing" "boughtTokens ?c = tokenA # toks"
    by (simp_all add: startMonitoring_def tokenA_def sellPath_def)
  have running: "\<not> returned (iteration ?m (quote (JStr ''1002003'')))"
    unfolding first_poll_running by (simp add: monitorTokenPrice_def)
  have one: "deliver ?c (Poll 0 (quote (JStr ''1002003'')))
               = ?c\<lparr>monitorPromises :=
                      iteration ?m (quote (JStr ''1002003'')) # monitorPromises (startMonitoring toks)\<rparr>"
    using running by (simp add: start Let_def)
  show ?thesis
    using running
    by (simp add: run_def firstTriggers_def one start Let_def triggered_monitor)
qed

lemma others_0_2: "others 0 (Suc (Suc 0)) = [1]"
  by (simp add: others_def)


lemma two_tokens_sold:
  "run (startMonitoring [tokenA, tokenB]) (firstTriggers @ twoSells) =
     (run (startMonitoring [tokenA, tokenB]) firstTriggers)
       \<lparr>phase := Completed, sellCalls := [0, 1],
        sold := [(0, JStr ''999000''), (1, JStr ''700000'')]\<rparr>"
  by (simp add: run_append first_triggers)
     (simp add: run_def twoSells_def startMonitoring_def others_0_2 sell_fine tokenA_def tokenB_def)


section \<open>Monitors after the sells\<close>

lemma second_monitor_after_sells:
  "monitorPromises (run (startMonitoring [tokenA, tokenB]) (firstTriggers @ twoSells)) ! 1
     = monitorTokenPrice polygonSwap sellPath (JStr ''700'') (1 / 1000)"
  by (simp add: two_tokens_sold first_triggers)
     (simp add: startMonitoring_def tokenA_def tokenB_def sellPath_def)

lemma first_poll_of_5:
  "iteration (monitorTokenPrice es path amt (1 / 1000)) (quote (JStr ''5''))
     = (monitorTokenPrice es path amt (1 / 1000))\<lparr>maxUSDTValue := JStr ''5'', requests := 1\<rparr>"
  by (rule first_quote) (simp_all add: number_5)

text \<open>
  Claim C3, as stated: once a position has been sold, no further price poll occurs for it
  and it is removed from monitoring. With two tokens, the first triggers and both are
  sold; the monitor of the second, which has not returned, then still takes a poll: its
  request count goes from 0 to 1 and its high-water mark changes.
\<close>

theorem sold_token_is_still_polled:
  "phase (run (startMonitoring [tokenA, tokenB]) (firstTriggers @ twoSells)) = Completed
   \<and> sold (run (startMonitoring [tokenA, tokenB]) (firstTriggers @ twoSells))
       = [(0, JStr ''999000''), (1, JStr ''700000'')]
   \<and> requests (monitorPromises
        (run (startMonitoring [tokenA, tokenB]) (firstTriggers @ twoSells)) ! 1) = 0
   \<and> requests (monitorPromises
        (run (startMonitoring [tokenA, tokenB])
           ((firstTriggers @ twoSells) @ [Poll 1 (quote (JStr ''5''))])) ! 1) = 1
   \<and> maxUSDTValue (monitorPromises
        (run (startMonitoring [tokenA, tokenB])
           ((firstTriggers @ twoSells) @ [Poll 1 (quote (JStr ''5''))])) ! 1) = JStr ''5''"
proof -
  let ?c = "run (startMonitoring [tokenA, tokenB]) (firstTriggers @ twoSells)"
  let ?m = "monitorTokenPrice polygonSwap sellPath (JStr ''700'') (1 / 1000)"
  have fin: "phase ?c = Completed" "sold ?c = [(0, JStr ''999000''), (1, JStr ''700000'')]"
    by (simp_all add: two_tokens_sold)
  have m: "monitorPromises ?c ! 1 = ?m"
    by (rule second_monitor_after_sells)
  have len: "1 < length (monitorPromises ?c)"
    by (simp add: two_tokens_sold first_triggers) (simp add: startMonitoring_def)
  have running: "\<not> returned (monitorPromises ?c ! 1)"
    unfolding m by (simp add: monitorTokenPrice_def)
  have "run (startMonitoring [tokenA, tokenB])
          ((firstTriggers @ twoSells) @ [Poll 1 (quote (JStr ''5''))])
          = deliver ?c (Poll 1 (quote (JStr ''5'')))"
    by (simp only: run_append run_Cons run_Nil)
  moreover have "monitorPromises (deliver ?c (Poll 1 (quote (JStr ''5'')))) ! 1
                   = ?m\<lparr>maxUSDTValue := JStr ''5'', requests := 1\<rparr>"
    using deliver_poll_running [OF len running] by (simp only: m first_poll_of_5)
  ultimately have after: "monitorPromises (run (startMonitoring [tokenA, tokenB])
          ((firstTriggers @ twoSells) @ [Poll 1 (quote (JStr ''5''))])) ! 1
          = ?m\<lparr>maxUSDTValue := JStr ''5'', requests := 1\<rparr>"
    by (simp only:)
  show ?thesis
    unfolding after m fin by (simp add: monitorTokenPrice_def)
qed

text \<open>
  Claim C3, amended: once the monitor of a position has triggered (returned), no further
  price poll occurs for it, its high-water mark never changes again and its drop
  condition is never evaluated again, whatever completes later. A monitor that has not
  returned takes every poll delivered to it, in every state of \<open>processNewEntries\<close>, sold
  or not: there is no cancellation.
\<close>

theorem returned_monitor_polls_no_more:
  assumes "i < length (monitorPromises c)"
  shows "(returned (monitorPromises c ! i) \<longrightarrow>
            monitorPromises (run c evs) ! i = monitorPromises c ! i)
       \<and> (\<not> returned (monitorPromises c ! i) \<longrightarrow>
            monitorPromises (deliver c (Poll i r)) ! i = iteration (monitorPromises c ! i) r
            \<and> requests (monitorPromises (deliver c (Poll i r)) ! i)
                = requests (monitorPromises c ! i) + 1)"
  using assms
  by (simp add: run_keeps_returned deliver_poll_running requests_iteration del: deliver.simps)

theorem returned_monitor_polls_no_more_witness:
  "monitorPromises (run (run (startMonitoring [tokenA, tokenB]) firstTriggers)
       (twoSells @ [Poll 0 (quote (JStr ''5''))])) ! 0
     = (monitorTokenPrice polygonSwap sellPath (JStr ''500'') (1 / 1000))
         \<lparr>maxUSDTValue := JStr ''1002003'', returned := True, requests := 2\<rparr>
   \<and> requests (monitorPromises
        (deliver (run (startMonitoring [tokenA, tokenB]) (firstTriggers @ twoSells))
           (Poll 1 (quote (JStr ''5'')))) ! 1) = 1"
proof -
  let ?c = "run (startMonitoring [tokenA, tokenB]) (firstTriggers @ twoSells)"
  have first: "monitorPromises (run (run (startMonitoring [tokenA, tokenB]) firstTriggers)
       (twoSells @ [Poll 0 (quote (JStr ''5''))])) ! 0
     = (monitorTokenPrice polygonSwap sellPath (JStr ''500'') (1 / 1000))
         \<lparr>maxUSDTValue := JStr ''1002003'', returned := True, requests := 2\<rparr>"
    using returned_monitor_polls_no_more
            [of 0 "run (startMonitoring [tokenA, tokenB]) firstTriggers"
                "twoSells @ [Poll 0 (quote (JStr ''5''))]"]
    by (simp add: first_triggers)
  have len: "1 < length (monitorPromises ?c)"
    by (simp add: two_tokens_sold first_triggers) (simp add: startMonitoring_def)
  have running: "\<not> returned (monitorPromises ?c ! 1)"
    unfolding second_monitor_after_sells by (simp add: monitorTokenPrice_def)
  have before: "requests (monitorPromises ?c ! 1) = 0"
    unfolding second_monitor_after_sells by (simp add: monitorTokenPrice_def)
  from returned_monitor_polls_no_more [OF len, of "[]" "quote (JStr ''5'')"] running
  have "requests (monitorPromises (deliver ?c (Poll 1 (quote (JStr ''5'')))) ! 1)
          = requests (monitorPromises ?c ! 1) + 1"
    by blast
  with before first show ?thesis by simp
qed

section \<open>The order of the sells\<close>




section \<open>A sell that throws\<close>

text \<open>
  Claim C7, as stated: when the sell of the primary position fails, the coordinator still
  tries to sell the remaining positions. With two tokens, the first triggers and its swap
  throws: \<open>processNewEntries\<close> is rejected with that error, and \<open>sellToken\<close> is never
  called for the second token, whatever completes later.
\<close>

theorem failed_primary_sell_stops_everything:
  "phase (run (startMonitoring [tokenA, tokenB])
      (firstTriggers @ [SellDone swapFails (quote (JStr ''999000''))]))
     = Rejected (ServiceError ''swap failed'')
   \<and> sellCalls (run (startMonitoring [tokenA, tokenB])
      (firstTriggers @ [SellDone swapFails (quote (JStr ''999000'')),
                        SellDone fine (quote (JStr ''700000''))])) = [0]
   \<and> sold (run (startMonitoring [tokenA, tokenB])
      (firstTriggers @ [SellDone swapFails (quote (JStr ''999000'')),
                        SellDone fine (quote (JStr ''700000''))])) = []"
  by (simp add: run_append first_triggers)
     (simp add: run_def startMonitoring_def others_0_2 sell_swapFails tokenA_def tokenB_def)

text \<open>
  Claim C7, amended: when the sell of the primary position throws, the failure is
  surfaced, \<open>processNewEntries\<close> being rejected with the error thrown (which \<open>main\<close>
  logs), and none of the remaining positions is sold, now or later.
\<close>

theorem primary_sell_failure_is_surfaced:
  assumes "c = run (startMonitoring toks) evs"
    and "phase c = Selling i rest" "tokenToSell c = Some i"
    and "snd (sellToken (token_expandSwap (toks ! i))
                [contract_address (toks ! i), usdt_address (toks ! i)]
                (token_amount (toks ! i)) w r) = Inl e"
  shows "phase (run c (SellDone w r # evs')) = Rejected e
       \<and> sellCalls (run c (SellDone w r # evs')) = [i]
       \<and> sold (run c (SellDone w r # evs')) = []"
proof -
  have c: "consistent c" unfolding assms(1) by (rule reached_consistent)
  have toks: "boughtTokens c = toks"
    unfolding assms(1) by (simp add: run_boughtTokens startMonitoring_def)
  from consistent_primary_in_flight [OF c assms(2,3)]
  have one: "sellCalls c = [i]" "sold c = []" by simp_all
  have d: "deliver c (SellDone w r) = c\<lparr>phase := Rejected e\<rparr>"
    using assms(2,4) by (simp add: toks Let_def)
  let ?d = "c\<lparr>phase := Rejected e\<rparr>"
  have "phase ?d = Completed \<or> phase ?d = Rejected e"
    by simp
  from settled_run [OF this, of evs']
  have "phase (run ?d evs') = Rejected e \<and> sellCalls (run ?d evs') = [i]
        \<and> sold (run ?d evs') = []"
    by (simp add: one)
  then show ?thesis by (simp only: run_Cons d)
qed

theorem primary_sell_failure_is_surfaced_witness:
  "phase (run (run (startMonitoring [tokenA, tokenB]) firstTriggers)
       (SellDone swapFails (quote (JStr ''999000'')) # twoSells))
     = Rejected (ServiceError ''swap failed'')
   \<and> sellCalls (run (run (startMonitoring [tokenA, tokenB]) firstTriggers)
       (SellDone swapFails (quote (JStr ''999000'')) # twoSells)) = [0]"
proof -
  let ?c = "run (startMonitoring [tokenA, tokenB]) firstTriggers"
  have p: "phase ?c = Selling 0 [1]" "tokenToSell ?c = Some 0"
    by (simp_all add: first_triggers others_0_2)
  have s: "snd (sellToken (token_expandSwap ([tokenA, tokenB] ! 0))
                [contract_address ([tokenA, tokenB] ! 0), usdt_address ([tokenA, tokenB] ! 0)]
                (token_amount ([tokenA, tokenB] ! 0)) swapFails (quote (JStr ''999000'')))
             = Inl (ServiceError ''swap failed'')"
    by (simp add: sell_swapFails tokenA_def)
  from primary_sell_failure_is_surfaced [OF refl p s, of twoSells]
  show ?thesis by simp
qed

section \<open>Buying\<close>

lemma string_amount_buys_nothing: "snd (buy (JStr s) en w r) = None"
  by (simp add: buy_def getPriceQuote_def Let_def split: prod.splits sum.splits)

lemma string_amount_bought_nothing: "snd (buyLoop (JStr s) batch) = []"
proof (induction batch)
  case Nil
  then show ?case by simp
next
  case (Cons x batch)
  obtain en w r where x: "x = (en, w, r)" by (cases x)
  obtain t tok where b: "buy (JStr s) en w r = (t, tok)" by (cases "buy (JStr s) en w r")
  with string_amount_buys_nothing [of s en w r] have none: "tok = None" by simp
  obtain ts toks where l: "buyLoop (JStr s) batch = (ts, toks)"
    by (cases "buyLoop (JStr s) batch")
  with Cons have "toks = []" by simp
  with x b none l show ?case by simp
qed

text \<open>
  Claim C8: for a candidate whose buy swap succeeds, the realized amount is queried and a
  position enters the bought set. \<open>main\<close> passes \<open>amountIn = '1000'\<close>. The swap of the
  candidate is sent, but the quote is asked with \<open>getPriceQuote(buyTokenPath, amountIn)\<close>,
  without the \<open>dexId\<close> the other three call sites pass: \<open>path\<close> is the string
  \<open>'1000'\<close>, \<open>path.join\<close> throws a TypeError before any request is made, the error is
  caught as a failed buy, and no token is recorded.
\<close>

theorem bought_token_is_not_recorded:
  "buyLoop (JStr ''1000'') [(candidate, fine, quote (JStr ''500''))]
     = ([ApprovePrepare, ApproveSign, ApproveSend, GetPrice, SwapPrepare, SwapSign, SwapSend], [])
   \<and> boughtTokens (processNewEntries (JStr ''1000'') [(candidate, fine, quote (JStr ''500''))]) = []
   \<and> getPriceQuote (JArr buyTokenPath) (JStr ''1000'') JUndefined (quote (JStr ''500''))
       = ([], Inl TypeError)"
  by (simp add: processNewEntries_def startMonitoring_def buy_def candidate_def
        property_def chainIdMapping_def dexIdMapping_def USDTMapping_def executeSwap_def
        approveToken_def prepareSwapTransaction_def getPriceQuote_def fine_def quote_def)

section \<open>An empty race\<close>

text \<open>
  Claim C10: when no candidate of a batch is bought, \<open>Promise.race\<close> over no monitor
  never settles: the \<open>processNewEntries\<close> of that batch never completes and never sells,
  whatever is delivered to it, while \<open>main\<close> goes on with a new cycle for every result of
  the scraper.
\<close>

theorem empty_race_never_resolves:
  assumes "k < length (tasks (main evs))" "boughtTokens (tasks (main evs) ! k) = []"
  shows "phase (tasks (main (evs @ evs')) ! k) = Racing
       \<and> sellCalls (tasks (main (evs @ evs')) ! k) = []
       \<and> sold (tasks (main (evs @ evs')) ! k) = []
       \<and> cycles (main (evs @ evs')) = cycles (main evs) + length (filter is_Scraped evs')"
proof -
  have all: "all_consistent (main evs)" by (rule main_consistent)
  then have c: "consistent (tasks (main evs) ! k)"
    using assms(1) by (simp add: all_consistent_def list_all_length)
  from main_run_stuck_task [OF all assms, of evs']
  have "tasks (main (evs @ evs')) ! k = tasks (main evs) ! k"
    and "cycles (main (evs @ evs')) = cycles (main evs) + length (filter is_Scraped evs')"
    by (simp_all add: main_append)
  with empty_batch_is_stuck [OF c assms(2)] show ?thesis by simp
qed

theorem empty_race_never_resolves_witness:
  "phase (tasks (main ([Scraped (Inr [(candidate, fine, quote (JStr ''500''))])]
       @ [Task 0 (Poll 0 (quote (JStr ''5''))), Task 0 (SellDone fine (quote (JStr ''5''))),
          Scraped (Inr [])])) ! 0) = Racing
   \<and> cycles (main ([Scraped (Inr [(candidate, fine, quote (JStr ''500''))])]
       @ [Task 0 (Poll 0 (quote (JStr ''5''))), Task 0 (SellDone fine (quote (JStr ''5''))),
          Scraped (Inr [])])) = 2"
proof -
  let ?evs = "[Scraped (Inr [(candidate, fine, quote (JStr ''500''))])]"
  have m: "main ?evs = \<lparr>cycles = 1,
             tasks = [processNewEntries (JStr ''1000'') [(candidate, fine, quote (JStr ''500''))]]\<rparr>"
    by (simp add: main_def)
  have k: "0 < length (tasks (main ?evs))" by (simp add: m)
  have b: "boughtTokens (tasks (main ?evs) ! 0) = []"
    by (simp add: m processNewEntries_def startMonitoring_def string_amount_bought_nothing
          del: buyLoop.simps)
  from empty_race_never_resolves [OF k b] show ?thesis by (simp add: m)
qed

section \<open>\<open>executeSwap\<close>\<close>

text \<open>
  Claim C9, as stated: \<open>executeSwap\<close> returns the realized output amount, and a rejected
  approval or a rejected transaction makes it fail. When the approval is answered with
  status 400, the swap is still prepared, signed and sent and \<open>executeSwap\<close> returns
  normally; when the swap is answered with status 400 it returns normally as well; and
  what it returns is \<open>undefined\<close>, also when every call succeeds.
\<close>

theorem rejections_do_not_fail_executeSwap:
  "executeSwap polygonSwap buyTokenPath (JStr ''1000'') approvalRejected
     = ([ApprovePrepare, GetPrice, SwapPrepare, SwapSign, SwapSend], Inr JUndefined)
   \<and> executeSwap polygonSwap buyTokenPath (JStr ''1000'') swapRejected
     = ([ApprovePrepare, ApproveSign, ApproveSend, GetPrice, SwapPrepare, SwapSign, SwapSend],
        Inr JUndefined)
   \<and> executeSwap polygonSwap buyTokenPath (JStr ''1000'') fine
     = ([ApprovePrepare, ApproveSign, ApproveSend, GetPrice, SwapPrepare, SwapSign, SwapSend],
        Inr JUndefined)"
  by (simp add: executeSwap_def approveToken_def prepareSwapTransaction_def getPriceQuote_def
        approvalRejected_def swapRejected_def fine_def quote_def)

lemma attempt_append:
  "attempt w (xs @ ys) =
     (case attempt w xs of
        (t, Some e) \<Rightarrow> (t, Some e)
      | (t, None) \<Rightarrow> (case attempt w ys of (t', r) \<Rightarrow> (t @ t', r)))"
  by (induction xs) (auto split: option.splits prod.splits)

lemma approval_as_planned:
  "approveToken w =
     (case attempt w (if approvePrepared w = Rejected400 then [ApprovePrepare]
                      else [ApprovePrepare, ApproveSign, ApproveSend]) of
        (t, Some e) \<Rightarrow> (t, Inl e)
      | (t, None) \<Rightarrow> (t, snd (approveToken w)))"
  by (cases "approvePrepared w"; cases "approveSigned w"; cases "approveSent w")
     (simp_all add: approveToken_def)

lemma approval_returns:
  "(\<exists>e. snd (approveToken w) = Inl e \<and>
      snd (attempt w (if approvePrepared w = Rejected400 then [ApprovePrepare]
                      else [ApprovePrepare, ApproveSign, ApproveSend])) = Some e)
   \<or> ((\<exists>x. snd (approveToken w) = Inr x) \<and>
      snd (attempt w (if approvePrepared w = Rejected400 then [ApprovePrepare]
                      else [ApprovePrepare, ApproveSign, ApproveSend])) = None)"
  by (cases "approvePrepared w"; cases "approveSigned w"; cases "approveSent w")
     (simp_all add: approveToken_def)

lemma swap_as_planned:
  "(case getPriceQuote (JStr d) (JArr path) amountIn (quoted w) of
      (t2, Inl e) \<Rightarrow> (t2, Inl (rethrown e))
    | (t2, Inr _) \<Rightarrow>
        (case prepareSwapTransaction w of
           (t3, Inl e) \<Rightarrow> (t2 @ t3, Inl (rethrown e))
         | (t3, Inr _) \<Rightarrow>
             (case swapSigned w of
                Throws e \<Rightarrow> (t2 @ t3 @ [SwapSign], Inl (rethrown e))
              | Nullish \<Rightarrow> (t2 @ t3 @ [SwapSign], Inl TypeError)
              | _ \<Rightarrow>
                  (case swapSent w of
                     Throws e \<Rightarrow> (t2 @ t3 @ [SwapSign, SwapSend], Inl (rethrown e))
                   | Nullish \<Rightarrow> (t2 @ t3 @ [SwapSign, SwapSend], Inl TypeError)
                   | Rejected400 \<Rightarrow> (t2 @ t3 @ [SwapSign, SwapSend], Inr JUndefined)
                   | Fine \<Rightarrow> (t2 @ t3 @ [SwapSign, SwapSend], Inr JUndefined)))))
   = (case attempt w [GetPrice, SwapPrepare, SwapSign, SwapSend] of
        (t, None) \<Rightarrow> (t, Inr JUndefined)
      | (t, Some e) \<Rightarrow> (t, Inl (rethrown e)))"
  by (cases "quoted w"; cases "swapPrepared w"; cases "swapSigned w"; cases "swapSent w")
     (simp_all add: getPriceQuote_def prepareSwapTransaction_def rethrown_def)

text \<open>
  Claim C9, amended: \<open>executeSwap\<close> makes its calls in the planned order (the approval,
  the quote, then the swap prepared, signed and sent) up to the first that fails, and
  throws the error of that call to the caller (a TypeError in place of a thrown
  \<open>undefined\<close> or \<open>null\<close>); when no call fails it makes them all and returns
  \<open>undefined\<close>, whatever the status of the answers: a status 400 at the approval does not
  stop the swap, and a status 400 at the swap is a normal return.
\<close>

theorem executeSwap_as_planned:
  "executeSwap es path amountIn w =
     (case attempt w (planned w) of
        (t, None) \<Rightarrow> (t, Inr JUndefined)
      | (t, Some e) \<Rightarrow> (t, Inl (rethrown e)))"
proof -
  let ?approval = "if approvePrepared w = Rejected400 then [ApprovePrepare]
                   else [ApprovePrepare, ApproveSign, ApproveSend]"
  obtain t1 r1 where a: "attempt w ?approval = (t1, r1)" by (cases "attempt w ?approval")
  have "approveToken w = (case r1 of Some e \<Rightarrow> (t1, Inl e)
                                   | None \<Rightarrow> (t1, snd (approveToken w)))"
    using approval_as_planned [of w] a by simp
  from arg_cong [OF this, of fst] have t1: "fst (approveToken w) = t1"
    by (cases r1) simp_all
  show ?thesis
  proof (cases r1)
    case (Some e)
    with approval_returns [of w] a have "snd (approveToken w) = Inl e" by auto
    with t1 have "approveToken w = (t1, Inl e)" by (cases "approveToken w") simp
    then show ?thesis
      using a Some by (simp add: executeSwap_def planned_def attempt_append)
  next
    case None
    with approval_returns [of w] a obtain x where "snd (approveToken w) = Inr x" by auto
    with t1 have ap: "approveToken w = (t1, Inr x)" by (cases "approveToken w") simp
    obtain t2 r2 where s: "attempt w [GetPrice, SwapPrepare, SwapSign, SwapSend] = (t2, r2)"
      by (cases "attempt w [GetPrice, SwapPrepare, SwapSign, SwapSend]")
    have "executeSwap es path amountIn w =
            (case (case getPriceQuote (JStr (dexId es)) (JArr path) amountIn (quoted w) of
                 (t2, Inl e) \<Rightarrow> (t2, Inl (rethrown e))
               | (t2, Inr _) \<Rightarrow>
                   (case prepareSwapTransaction w of
                      (t3, Inl e) \<Rightarrow> (t2 @ t3, Inl (rethrown e))
                    | (t3, Inr _) \<Rightarrow>
                        (case swapSigned w of
                           Throws e \<Rightarrow> (t2 @ t3 @ [SwapSign], Inl (rethrown e))
                         | Nullish \<Rightarrow> (t2 @ t3 @ [SwapSign], Inl TypeError)
                         | _ \<Rightarrow>
                             (case swapSent w of
                                Throws e \<Rightarrow> (t2 @ t3 @ [SwapSign, SwapSend], Inl (rethrown e))
                              | Nullish \<Rightarrow> (t2 @ t3 @ [SwapSign, SwapSend], Inl TypeError)
                              | Rejected400 \<Rightarrow> (t2 @ t3 @ [SwapSign, SwapSend], Inr JUndefined)
                              | Fine \<Rightarrow> (t2 @ t3 @ [SwapSign, SwapSend], Inr JUndefined))))) of
               (t, r) \<Rightarrow> (t1 @ t, r))"
      unfolding executeSwap_def ap
      by (simp split: prod.splits sum.splits outcome.splits)
    also have "\<dots> = (case r2 of None \<Rightarrow> (t1 @ t2, Inr JUndefined)
                              | Some e \<Rightarrow> (t1 @ t2, Inl (rethrown e)))"
      unfolding swap_as_planned s by (cases r2) simp_all
    finally show ?thesis
      using a None s by (simp add: planned_def attempt_append)
  qed
qed

theorem executeSwap_as_planned_witness:
  "executeSwap polygonSwap sellPath (JStr ''500'') swapFails
     = ([ApprovePrepare, ApproveSign, ApproveSend, GetPrice, SwapPrepare, SwapSign, SwapSend],
        Inl (ServiceError ''swap failed''))
   \<and> executeSwap polygonSwap sellPath (JStr ''500'') approvalRejected
     = ([ApprovePrepare, GetPrice, SwapPrepare, SwapSign, SwapSend], Inr JUndefined)
   \<and> executeSwap polygonSwap sellPath (JStr ''500'') (fine\<lparr>swapSigned := Nullish\<rparr>)
     = ([ApprovePrepare, ApproveSign, ApproveSend, GetPrice, SwapPrepare, SwapSign],
        Inl TypeError)"
  using executeSwap_as_planned [of polygonSwap sellPath "JStr ''500''" swapFails]
    executeSwap_as_planned [of polygonSwap sellPath "JStr ''500''" approvalRejected]
    executeSwap_as_planned [of polygonSwap sellPath "JStr ''500''" "fine\<lparr>swapSigned := Nullish\<rparr>"]
  by (simp add: planned_def swapFails_def approvalRejected_def fine_def quote_def rethrown_def)

end
